theory Spec2Isabelle
  imports Complex_Main "HOL-Library.Sublist" "HOL-Library.Log_Nat"
begin

section \<open>Strings\<close>

text \<open>
  A JavaScript string is a sequence of UTF-16 code units; \<open>length\<close>, \<open>slice\<close>,
  \<open>split\<close> and the regular expressions of the source (none has the \<open>u\<close> flag) all work
  on code units.  A string is modelled as the list of its code units, each a natural
  number.  \<open>js\<close> reads an ASCII literal.
\<close>

type_synonym jstring = "nat list"

definition js :: "string \<Rightarrow> jstring" where
  "js s = map of_char s"

text \<open>The character classes of the regular expressions: \<open>\s\<close> (also what \<open>trim\<close> strips),
  \<open>\d\<close>, \<open>\w\<close>, \<open>[a-z]\<close>, \<open>[A-Z]\<close>, and the line terminators after which \<open>^\<close> matches
  under the \<open>m\<close> flag.\<close>

definition isSpace :: "nat \<Rightarrow> bool" where
  "isSpace c \<longleftrightarrow> (9 \<le> c \<and> c \<le> 13) \<or> c = 32 \<or> c = 160 \<or> c = 5760 \<or> (8192 \<le> c \<and> c \<le> 8202)
     \<or> c = 8232 \<or> c = 8233 \<or> c = 8239 \<or> c = 8287 \<or> c = 12288 \<or> c = 65279"

definition isDigit :: "nat \<Rightarrow> bool" where
  "isDigit c \<longleftrightarrow> 48 \<le> c \<and> c \<le> 57"

definition isLower :: "nat \<Rightarrow> bool" where
  "isLower c \<longleftrightarrow> 97 \<le> c \<and> c \<le> 122"

definition isUpper :: "nat \<Rightarrow> bool" where
  "isUpper c \<longleftrightarrow> 65 \<le> c \<and> c \<le> 90"

definition isWord :: "nat \<Rightarrow> bool" where
  "isWord c \<longleftrightarrow> isLower c \<or> isUpper c \<or> isDigit c \<or> c = 95"

definition isLineTerminator :: "nat \<Rightarrow> bool" where
  "isLineTerminator c \<longleftrightarrow> c = 10 \<or> c = 13 \<or> c = 8232 \<or> c = 8233"

text \<open>A pattern letter under the \<open>i\<close> flag: the ASCII letter in either case (a code unit
  above 127 never canonicalises to an ASCII letter); any other pattern character
  matches itself only.  Patterns are written in lower case.\<close>

definition ci :: "nat \<Rightarrow> nat \<Rightarrow> bool" where
  "ci l c \<longleftrightarrow> c = l \<or> (isLower l \<and> c + 32 = l)"

text \<open>\<open>s.trim()\<close>.\<close>

definition trim :: "jstring \<Rightarrow> jstring" where
  "trim s = rev (dropWhile isSpace (rev (dropWhile isSpace s)))"

text \<open>\<open>s.split("\n")\<close>: never empty; the empty string gives one empty line.  (The first
  case of the inner \<open>case\<close> cannot occur.)\<close>

fun splitLines :: "jstring \<Rightarrow> jstring list" where
  "splitLines [] = [[]]"
| "splitLines (c # cs) =
     (if c = 10 then [] # splitLines cs
      else (case splitLines cs of [] \<Rightarrow> [[c]] | l # ls \<Rightarrow> (c # l) # ls))"

text \<open>\<open>lines.join("\n")\<close>.\<close>

fun joinLines :: "jstring list \<Rightarrow> jstring" where
  "joinLines [] = []"
| "joinLines [l] = l"
| "joinLines (l # m # ls) = l @ 10 # joinLines (m # ls)"

text \<open>\<open>s.includes(c)\<close> for a one-character string, \<open>s.startsWith(p)\<close>, \<open>s.slice(-n)\<close> for
  \<open>n > 0\<close>.\<close>

definition strIncludes :: "jstring \<Rightarrow> nat \<Rightarrow> bool" where
  "strIncludes s c \<longleftrightarrow> c \<in> set s"

definition startsWith :: "jstring \<Rightarrow> jstring \<Rightarrow> bool" where
  "startsWith s p \<longleftrightarrow> prefix p s"

definition sliceLast :: "nat \<Rightarrow> jstring \<Rightarrow> jstring" where
  "sliceLast n s = drop (length s - n) s"

section \<open>Preprocessor\<close>

subsection \<open>normalizeWhitespace\<close>

text \<open>\<open>.replace(/\r\n/g, "\n")\<close>\<close>

fun replaceCRLF :: "jstring \<Rightarrow> jstring" where
  "replaceCRLF (a # b # cs) =
     (if a = 13 \<and> b = 10 then 10 # replaceCRLF cs else a # replaceCRLF (b # cs))"
| "replaceCRLF cs = cs"

text \<open>\<open>.replace(/\r/g, "\n")\<close>\<close>

definition replaceCR :: "jstring \<Rightarrow> jstring" where
  "replaceCR s = map (\<lambda>c. if c = 13 then 10 else c) s"

text \<open>\<open>.replace(/d+/g, "d")\<close> for a single character \<open>d\<close>: of a run of \<open>d\<close>s only the last
  is kept.\<close>

fun collapseRuns :: "nat \<Rightarrow> jstring \<Rightarrow> jstring" where
  "collapseRuns d (a # b # cs) =
     (if a = d \<and> b = d then collapseRuns d (b # cs) else a # collapseRuns d (b # cs))"
| "collapseRuns d cs = cs"

text \<open>\<open>.replace(/\n{4,}/g, "\n\n\n")\<close>: of a run of four or more newlines only the last
  three are kept.\<close>

fun capNewlines :: "jstring \<Rightarrow> jstring" where
  "capNewlines (a # b # c # d # cs) =
     (if a = 10 \<and> b = 10 \<and> c = 10 \<and> d = 10 then capNewlines (b # c # d # cs)
      else a # capNewlines (b # c # d # cs))"
| "capNewlines cs = cs"

definition normalizeWhitespace :: "jstring \<Rightarrow> jstring" where
  "normalizeWhitespace text =
     capNewlines (collapseRuns 9 (collapseRuns 32 (replaceCR (replaceCRLF text))))"

subsection \<open>removePDFArtifacts\<close>

text \<open>\<open>-\s+(\w)\<close> at the head of a string: the word character and what follows it.\<close>

definition hyphenBreak :: "jstring \<Rightarrow> (nat \<times> jstring) option" where
  "hyphenBreak s =
     (case s of
        h # sp # r \<Rightarrow>
          (if h = 45 \<and> isSpace sp then
             (case dropWhile isSpace r of
                [] \<Rightarrow> None
              | w # rest \<Rightarrow> if isWord w then Some (w, rest) else None)
           else None)
      | _ \<Rightarrow> None)"

text \<open>\<open>.replace(/(\w)-\s+(\w)/g, "$1$2")\<close>; the search goes on after the second word
  character.\<close>

lemma dropWhile_Cons_shorter: "dropWhile P xs = y # ys \<Longrightarrow> length ys < length xs"
  using length_dropWhile_le [of P xs] by simp

function joinHyphenated :: "jstring \<Rightarrow> jstring" where
  "joinHyphenated [] = []"
| "joinHyphenated (c # cs) =
     (case (if isWord c then hyphenBreak cs else None) of
        Some (w, rest) \<Rightarrow> c # w # joinHyphenated rest
      | None \<Rightarrow> c # joinHyphenated cs)"
  by pat_completeness auto
termination
  by (relation "measure length")
     (auto simp: hyphenBreak_def split: list.splits if_splits dest!: dropWhile_Cons_shorter)

text \<open>\<open>.replace(/([a-z])([A-Z])/g, "$1 $2")\<close>\<close>

fun splitCamel :: "jstring \<Rightarrow> jstring" where
  "splitCamel (a # b # cs) =
     (if isLower a \<and> isUpper b then a # 32 # b # splitCamel cs else a # splitCamel (b # cs))"
| "splitCamel cs = cs"

definition removePDFArtifacts :: "jstring \<Rightarrow> jstring" where
  "removePDFArtifacts text =
     (let cleaned = filter (\<lambda>c. \<not> ((8203 \<le> c \<and> c \<le> 8205) \<or> c = 65279)) text;
          cleaned = filter (\<lambda>c. c \<noteq> 173) cleaned;
          cleaned = splitCamel (joinHyphenated cleaned);
          cleaned = concat (map (\<lambda>c. if c = 12 then [10, 10] else [c]) cleaned)
      in cleaned)"

subsection \<open>removePageNumbers\<close>

text \<open>\<open>/^(page\s+)?\d+(\s*(\/|of)\s*\d+)?$/i\<close>, and the same pattern without the \<open>of\<close>
  alternative (the one of \<open>detectHeaderFooter\<close>), as a test on a whole string.  The three
  parts are matched in turn; no part can give characters back to the next.\<close>

definition skipPagePrefix :: "jstring \<Rightarrow> jstring" where
  "skipPagePrefix s =
     (case s of
        p # a # g # e # sp # r \<Rightarrow>
          if ci 112 p \<and> ci 97 a \<and> ci 103 g \<and> ci 101 e \<and> isSpace sp then dropWhile isSpace r else s
      | _ \<Rightarrow> s)"

definition skipSeparator :: "bool \<Rightarrow> jstring \<Rightarrow> jstring option" where
  "skipSeparator withOf s =
     (case s of
        [] \<Rightarrow> None
      | a # r \<Rightarrow>
          if a = 47 then Some r
          else (case r of
                  [] \<Rightarrow> None
                | b # r' \<Rightarrow> if withOf \<and> ci 111 a \<and> ci 102 b then Some r' else None))"

definition pageNumberPattern :: "bool \<Rightarrow> jstring \<Rightarrow> bool" where
  "pageNumberPattern withOf s =
     (let s1 = skipPagePrefix s;
          rest = dropWhile isDigit s1
      in takeWhile isDigit s1 \<noteq> [] \<and>
         (rest = [] \<or>
          (case skipSeparator withOf (dropWhile isSpace rest) of
             None \<Rightarrow> False
           | Some r \<Rightarrow> dropWhile isSpace r \<noteq> [] \<and> list_all isDigit (dropWhile isSpace r))))"

text \<open>\<open>/^\d{1,3}$/\<close>\<close>

definition shortNumber :: "jstring \<Rightarrow> bool" where
  "shortNumber s \<longleftrightarrow> 1 \<le> length s \<and> length s \<le> 3 \<and> list_all isDigit s"

definition removePageNumbers :: "jstring \<Rightarrow> jstring" where
  "removePageNumbers text =
     joinLines (filter (\<lambda>line. let trimmed = trim line in
                          if pageNumberPattern True trimmed then False
                          else if shortNumber trimmed then False
                          else True)
                  (splitLines text))"

subsection \<open>removeStandaloneLinks\<close>

text \<open>\<open>/^https?:\/\/[^\s]+$/\<close>\<close>

definition urlPattern :: "jstring \<Rightarrow> bool" where
  "urlPattern s =
     (let afterScheme = (\<lambda>r. case r of
            a # b # c # rest \<Rightarrow> a = 58 \<and> b = 47 \<and> c = 47 \<and> rest \<noteq> [] \<and> list_all (\<lambda>x. \<not> isSpace x) rest
          | _ \<Rightarrow> False)
      in case s of
           h # t # t' # p # r \<Rightarrow>
             h = 104 \<and> t = 116 \<and> t' = 116 \<and> p = 112 \<and>
             ((case r of x # r' \<Rightarrow> x = 115 \<and> afterScheme r' | [] \<Rightarrow> False) \<or> afterScheme r)
         | _ \<Rightarrow> False)"

text \<open>\<open>/^[\w.-]+@[\w.-]+\.\w+$/\<close>: a non-empty local part of \<open>[\w.-]\<close>, an \<open>@\<close>, and a
  domain of \<open>[\w.-]\<close> whose last dot has a non-empty part of \<open>[\w.-]\<close> before it and a
  non-empty run of \<open>\w\<close> after it.\<close>

definition isMailChar :: "nat \<Rightarrow> bool" where
  "isMailChar c \<longleftrightarrow> isWord c \<or> c = 46 \<or> c = 45"

definition emailPattern :: "jstring \<Rightarrow> bool" where
  "emailPattern s =
     (let localPart = takeWhile isMailChar s;
          rest = dropWhile isMailChar s
      in localPart \<noteq> [] \<and>
         (case rest of
            [] \<Rightarrow> False
          | a # domain \<Rightarrow>
              a = 64 \<and> list_all isMailChar domain \<and>
              (let tld = rev (takeWhile (\<lambda>c. c \<noteq> 46) (rev domain));
                   beforeDot = rev (dropWhile (\<lambda>c. c \<noteq> 46) (rev domain))
               in tld \<noteq> [] \<and> list_all isWord tld \<and> 2 \<le> length beforeDot)))"

definition removeStandaloneLinks :: "jstring \<Rightarrow> jstring" where
  "removeStandaloneLinks text =
     joinLines (filter (\<lambda>line. let trimmed = trim line in
                          if urlPattern trimmed then False
                          else if emailPattern trimmed then False
                          else True)
                  (splitLines text))"

subsection \<open>removeRepeatedSections\<close>

text \<open>The \<open>Map\<close> from trimmed line to its count, as an association list in insertion
  order.\<close>

fun bump :: "jstring \<Rightarrow> (jstring \<times> nat) list \<Rightarrow> (jstring \<times> nat) list" where
  "bump k [] = [(k, 1)]"
| "bump k ((k', n) # m) = (if k = k' then (k', n + 1) # m else (k', n) # bump k m)"

fun countLines :: "jstring list \<Rightarrow> (jstring \<times> nat) list \<Rightarrow> (jstring \<times> nat) list" where
  "countLines [] lineFrequency = lineFrequency"
| "countLines (line # lines) lineFrequency =
     (let trimmed = trim line in
      if length trimmed > 5 \<and> length trimmed < 100
      then countLines lines (bump trimmed lineFrequency)
      else countLines lines lineFrequency)"

definition removeRepeatedSections :: "jstring \<Rightarrow> jstring" where
  "removeRepeatedSections text =
     (let lines = splitLines text;
          lineFrequency = countLines lines [];
          repeatedLines = map fst (filter (\<lambda>(line, count). count > 2) lineFrequency)
      in if length repeatedLines > 0
         then joinLines (filter (\<lambda>line. trim line \<notin> set repeatedLines) lines)
         else text)"

subsection \<open>normalizeLists\<close>

definition isBulletGlyph :: "nat \<Rightarrow> bool" where
  "isBulletGlyph c \<longleftrightarrow> c \<in> set [8226, 9679, 9675, 9702, 9642, 9643, 9632, 9633, 9733, 9734, 9658, 9656]"

definition isDashGlyph :: "nat \<Rightarrow> bool" where
  "isDashGlyph c \<longleftrightarrow> c = 45 \<or> c = 8211 \<or> c = 8212"

datatype marker = Bullets | Dashes | Numbers

text \<open>The three patterns after their \<open>^\<close>, matched at the head of a string:
  \<open>[\s]*[marks]+[\s]+\<close> for the bullet and the dash glyphs and \<open>[\s]*(\d+)[\.)]\s+\<close>.  A
  match gives the replacement (\<open>"\<bullet> "\<close>, or \<open>"$1. "\<close>), the white space that ends the
  match, and the rest of the string.\<close>

fun markerMatch :: "marker \<Rightarrow> jstring \<Rightarrow> (jstring \<times> jstring \<times> jstring) option" where
  "markerMatch Numbers s =
     (let s1 = dropWhile isSpace s in
      case dropWhile isDigit s1 of
        [] \<Rightarrow> None
      | p # s2 \<Rightarrow>
          if takeWhile isDigit s1 \<noteq> [] \<and> (p = 46 \<or> p = 41) \<and> takeWhile isSpace s2 \<noteq> []
          then Some (takeWhile isDigit s1 @ [46, 32], takeWhile isSpace s2, dropWhile isSpace s2)
          else None)"
| "markerMatch k s =
     (let isMark = (if k = Bullets then isBulletGlyph else isDashGlyph);
          s1 = dropWhile isSpace s;
          s2 = dropWhile isMark s1
      in if takeWhile isMark s1 \<noteq> [] \<and> takeWhile isSpace s2 \<noteq> []
         then Some ([8226, 32], takeWhile isSpace s2, dropWhile isSpace s2)
         else None)"

lemma markerMatch_shorter:
  "markerMatch k s = Some (rep, ws, rest) \<Longrightarrow> length rest < length s"
proof -
  have le: "length (dropWhile P xs) \<le> length xs" for P and xs :: jstring
    by (rule length_dropWhile_le)
  have lt: "takeWhile P xs \<noteq> [] \<Longrightarrow> length (dropWhile P xs) < length xs" for P and xs :: jstring
    by (cases xs) (auto simp: le less_Suc_eq_le split: if_splits)
  assume m: "markerMatch k s = Some (rep, ws, rest)"
  show ?thesis
  proof (cases k)
    case Numbers
    with m obtain p s2 where
      d: "dropWhile isDigit (dropWhile isSpace s) = p # s2"
      and w: "takeWhile isSpace s2 \<noteq> []" and r: "rest = dropWhile isSpace s2"
      by (auto simp: Let_def split: list.splits if_splits)
    from d have "length s2 < length (dropWhile isSpace s)"
      by (rule dropWhile_Cons_shorter)
    with le [of isSpace s] le [of isSpace s2] r show ?thesis by simp
  next
    case Bullets
    with m have w: "takeWhile isSpace (dropWhile isBulletGlyph (dropWhile isSpace s)) \<noteq> []"
      and r: "rest = dropWhile isSpace (dropWhile isBulletGlyph (dropWhile isSpace s))"
      by (auto simp: Let_def split: if_splits)
    from lt [OF w] le [of isBulletGlyph "dropWhile isSpace s"] le [of isSpace s] r
    show ?thesis by simp
  next
    case Dashes
    with m have w: "takeWhile isSpace (dropWhile isDashGlyph (dropWhile isSpace s)) \<noteq> []"
      and r: "rest = dropWhile isSpace (dropWhile isDashGlyph (dropWhile isSpace s))"
      by (auto simp: Let_def split: if_splits)
    from lt [OF w] le [of isDashGlyph "dropWhile isSpace s"] le [of isSpace s] r
    show ?thesis by simp
  qed
qed

text \<open>\<open>.replace(/^pattern/gm, replacement)\<close>: \<open>atLineStart\<close> says whether \<open>^\<close> matches at
  the current position (the start of the text, or just after a line terminator).  After a
  match the search goes on behind it, where \<open>^\<close> matches if the match ended with a line
  terminator.\<close>

function replaceMarkers :: "marker \<Rightarrow> bool \<Rightarrow> jstring \<Rightarrow> jstring" where
  "replaceMarkers k atLineStart [] = []"
| "replaceMarkers k atLineStart (c # cs) =
     (case (if atLineStart then markerMatch k (c # cs) else None) of
        Some (replacement, ws, rest) \<Rightarrow>
          replacement @ replaceMarkers k (isLineTerminator (last ws)) rest
      | None \<Rightarrow> c # replaceMarkers k (isLineTerminator c) cs)"
  by pat_completeness auto
termination
  by (relation "measure (\<lambda>(k, b, s). length s)")
     (auto split: if_splits dest: markerMatch_shorter)

definition normalizeLists :: "jstring \<Rightarrow> jstring" where
  "normalizeLists text =
     replaceMarkers Numbers True (replaceMarkers Dashes True (replaceMarkers Bullets True text))"

subsection \<open>fixOCRErrors\<close>

text \<open>\<open>.replace(/\ba\b/g, "b")\<close> for a word character \<open>a\<close>: an \<open>a\<close> with no word character
  on either side.  \<open>prevWord\<close> says whether the character before is a word character.\<close>

fun replaceIsolated :: "nat \<Rightarrow> nat \<Rightarrow> bool \<Rightarrow> jstring \<Rightarrow> jstring" where
  "replaceIsolated a b prevWord [] = []"
| "replaceIsolated a b prevWord (c # cs) =
     (if c = a \<and> \<not> prevWord \<and> (case cs of [] \<Rightarrow> True | n # _ \<Rightarrow> \<not> isWord n) then b else c)
     # replaceIsolated a b (isWord c) cs"

text \<open>\<open>.replace(/([a-z])1([a-z])/g, "$1l$2")\<close>, \<open>.replace(/(\w)1\s/g, "$1l ")\<close> and
  \<open>.replace(/\s1(\w)/g, " l$1")\<close>\<close>

fun fixOneBetweenLetters :: "jstring \<Rightarrow> jstring" where
  "fixOneBetweenLetters (a # b # c # cs) =
     (if isLower a \<and> b = 49 \<and> isLower c then a # 108 # c # fixOneBetweenLetters cs
      else a # fixOneBetweenLetters (b # c # cs))"
| "fixOneBetweenLetters cs = cs"

fun fixOneAtWordEnd :: "jstring \<Rightarrow> jstring" where
  "fixOneAtWordEnd (a # b # c # cs) =
     (if isWord a \<and> b = 49 \<and> isSpace c then a # 108 # 32 # fixOneAtWordEnd cs
      else a # fixOneAtWordEnd (b # c # cs))"
| "fixOneAtWordEnd cs = cs"

fun fixOneAtWordStart :: "jstring \<Rightarrow> jstring" where
  "fixOneAtWordStart (a # b # c # cs) =
     (if isSpace a \<and> b = 49 \<and> isWord c then 32 # 108 # c # fixOneAtWordStart cs
      else a # fixOneAtWordStart (b # c # cs))"
| "fixOneAtWordStart cs = cs"

definition fixOCRErrors :: "jstring \<Rightarrow> jstring" where
  "fixOCRErrors text =
     fixOneAtWordStart (fixOneAtWordEnd (fixOneBetweenLetters
       (replaceIsolated 48 79 False (replaceIsolated 108 73 False text))))"

subsection \<open>preprocessText\<close>

text \<open>The options object; a field left out is \<open>undefined\<close>, here \<open>None\<close>.\<close>

record PreprocessOptions =
  removeRepeated :: "bool option"
  removePageNumbersOpt :: "bool option"
  fixOCR :: "bool option"
  removeLinks :: "bool option"

definition defaultOptions :: PreprocessOptions where
  "defaultOptions = \<lparr>removeRepeated = None, removePageNumbersOpt = None, fixOCR = None, removeLinks = None\<rparr>"

definition preprocessText :: "jstring \<Rightarrow> PreprocessOptions \<Rightarrow> jstring" where
  "preprocessText text options =
     (let processed = text;
          processed = normalizeWhitespace processed;
          processed = removePDFArtifacts processed;
          processed = (if removePageNumbersOpt options \<noteq> Some False
                       then removePageNumbers processed else processed);
          processed = (if removeLinks options \<noteq> Some False
                       then removeStandaloneLinks processed else processed);
          processed = (if removeRepeated options \<noteq> Some False
                       then removeRepeatedSections processed else processed);
          processed = normalizeLists processed;
          processed = (if fixOCR options = Some True then fixOCRErrors processed else processed);
          processed = normalizeWhitespace processed
      in trim processed)"

section \<open>Detectors\<close>

text \<open>The block types and the content block of the segmentation.\<close>

datatype ContentType = TextType | TableType | ListType | HeadingType

record ContentBlock =
  blockText :: jstring
  blockType :: ContentType
  blockConfidence :: rat
  startLine :: nat
  endLine :: nat

text \<open>\<open>text.split("\n").filter((l) => l.trim().length > 0)\<close>\<close>

definition nonBlankLines :: "jstring \<Rightarrow> jstring list" where
  "nonBlankLines text = filter (\<lambda>l. length (trim l) > 0) (splitLines text)"

text \<open>\<open>/\s{3,}/.test(l)\<close>\<close>

fun hasSpaceRun :: "jstring \<Rightarrow> bool" where
  "hasSpaceRun (a # b # c # cs) = ((isSpace a \<and> isSpace b \<and> isSpace c) \<or> hasSpaceRun (b # c # cs))"
| "hasSpaceRun cs = False"

text \<open>JavaScript numbers are IEEE 754 doubles.  \<open>roundToDouble\<close> rounds a rational to
  the nearest number with a significand of 53 bits, ties to the even significand (the
  exponent is not bounded: the numbers of the detectors are sums and quotients of string
  lengths, far inside the range of the normal doubles).  \<open>binaryExponent x\<close> is the
  \<open>e\<close> with \<open>2 ^ e \<le> x < 2 ^ (e + 1)\<close>, for a positive \<open>x\<close>.\<close>

definition roundHalfEven :: "rat \<Rightarrow> int" where
  "roundHalfEven x =
     (let f = \<lfloor>x\<rfloor>; r = x - of_int f
      in if r < 1 / 2 then f else if 1 / 2 < r then f + 1 else if even f then f else f + 1)"

definition binaryExponent :: "rat \<Rightarrow> int" where
  "binaryExponent x =
     (if 1 \<le> x then int (floorlog 2 (nat \<lfloor>x\<rfloor>)) - 1
      else - int (floorlog 2 (nat (\<lceil>1 / x\<rceil> - 1))))"

definition pow2 :: "int \<Rightarrow> rat" where
  "pow2 e = (if 0 \<le> e then 2 ^ nat e else 1 / 2 ^ nat (- e))"

definition roundToDouble :: "rat \<Rightarrow> rat" where
  "roundToDouble x =
     (if x = 0 then 0
      else let a = \<bar>x\<bar>; u = pow2 (binaryExponent a - 52)
           in sgn x * of_int (roundHalfEven (a / u)) * u)"

text \<open>The variance test of \<open>detectTable\<close>, on the lengths of the lines:
  \<^verbatim>\<open>avgLength = lines.reduce((sum, l) => sum + l.length, 0) / lines.length\<close>,
  \<^verbatim>\<open>variance = lines.reduce((sum, l) => sum + Math.abs(l.length - avgLength), 0) / lines.length\<close>
  and \<^verbatim>\<open>variance < avgLength * 0.3\<close>, every operation rounded to a double as the code
  computes it (the sum of the lengths is an integer below \<open>2 ^ 53\<close>, and exact).\<close>

definition lowLengthVariance :: "nat list \<Rightarrow> bool" where
  "lowLengthVariance lengths =
     (let n = length lengths;
          avgLength = roundToDouble (of_nat (foldl (\<lambda>sum l. sum + l) 0 lengths) / of_nat n);
          variance = roundToDouble
            (foldl (\<lambda>sum l. roundToDouble (sum + \<bar>roundToDouble (of_nat l - avgLength)\<bar>)) 0 lengths
               / of_nat n)
      in variance < roundToDouble (avgLength * roundToDouble (3 / 10)))"

text \<open>A detector returns the pair of its verdict and its confidence.  The other quotients
  of the detectors are quotients of two counts or of two scores, compared with a decimal
  constant of one or two digits.  The division of doubles is correctly rounded, so for a
  text of fewer than \<open>2 ^ 49\<close> lines such a quotient is above the constant as a double
  exactly when it is as a rational; these quotients and the confidence are read as
  rationals.\<close>

definition detectTable :: "jstring \<Rightarrow> bool \<times> rat" where
  "detectTable text =
     (let lines = nonBlankLines text in
      if length lines < 2 then (False, 0)
      else
        let n = length lines;
            pipeLines = length (filter (\<lambda>l. strIncludes l 124) lines);
            score = (if pipeLines \<ge> 3
                     then 30 + (if (of_nat pipeLines / of_nat n :: rat) > 7 / 10 then 20 else 0)
                     else 0 :: nat);
            maxScore = (50 :: nat);
            tabLines = length (filter (\<lambda>l. strIncludes l 9) lines);
            score = score + (if tabLines \<ge> 3 then 20 else 0);
            maxScore = maxScore + 20;
            spacedLines = length (filter hasSpaceRun lines);
            score = score + (if spacedLines \<ge> 3
                             then 15 + (if (of_nat spacedLines / of_nat n :: rat) > 6 / 10 then 10 else 0)
                             else 0);
            maxScore = maxScore + 25;
            score = score + (if lowLengthVariance (map length lines) then 15 else 0);
            maxScore = maxScore + 15;
            numericLines = length (filter (list_ex isDigit) lines);
            score = score + (if (of_nat numericLines / of_nat n :: rat) > 5 / 10 then 10 else 0);
            maxScore = maxScore + 10;
            confidence = (of_nat score / of_nat maxScore :: rat)
        in (confidence > 4 / 10, confidence))"

text \<open>The bullet pattern of \<open>detectList\<close>, \<open>^\s*\<close>, one of six glyphs (U+2022, \<open>-\<close>, \<open>*\<close>,
  U+25CB, U+25BA, U+25AA), \<open>\s+\<close>; and \<open>/^\s{2,}/.test(l)\<close>.  The numbered pattern is
  the one of \<open>normalizeLists\<close>.\<close>

definition bulletPattern :: "jstring \<Rightarrow> bool" where
  "bulletPattern l =
     (case dropWhile isSpace l of
        m # w # _ \<Rightarrow> m \<in> set [8226, 45, 42, 9675, 9658, 9642] \<and> isSpace w
      | _ \<Rightarrow> False)"

definition indented :: "jstring \<Rightarrow> bool" where
  "indented l = (case l of a # b # _ \<Rightarrow> isSpace a \<and> isSpace b | _ \<Rightarrow> False)"

definition detectList :: "jstring \<Rightarrow> bool \<times> rat" where
  "detectList text =
     (let lines = nonBlankLines text in
      if length lines < 2 then (False, 0)
      else
        let n = length lines;
            numberedLines = length (filter (\<lambda>l. markerMatch Numbers l \<noteq> None) lines);
            score = (if numberedLines \<ge> 2
                     then 40 + (if (of_nat numberedLines / of_nat n :: rat) > 7 / 10 then 20 else 0)
                     else 0 :: nat);
            maxScore = (60 :: nat);
            bulletLines = length (filter bulletPattern lines);
            score = score + (if bulletLines \<ge> 2
                             then 30 + (if (of_nat bulletLines / of_nat n :: rat) > 7 / 10 then 15 else 0)
                             else 0);
            maxScore = maxScore + 45;
            indentedLines = length (filter indented lines);
            score = score + (if (of_nat indentedLines / of_nat n :: rat) > 5 / 10 then 10 else 0);
            maxScore = maxScore + 10;
            confidence = (of_nat score / of_nat maxScore :: rat)
        in (confidence > 35 / 100, confidence))"

text \<open>A pattern \<open>/^(k1|k2|...)/i\<close> of ASCII keywords: one of them is a prefix of the
  string, letters compared without case.\<close>

definition ciPrefix :: "jstring \<Rightarrow> jstring \<Rightarrow> bool" where
  "ciPrefix k s \<longleftrightarrow> length k \<le> length s \<and> list_all2 ci k (take (length k) s)"

definition isTerminator :: "nat \<Rightarrow> bool" where
  "isTerminator c \<longleftrightarrow> c = 46 \<or> c = 33 \<or> c = 63"

text \<open>\<open>/^[#*]{1,3}\s/.test(line)\<close> and \<open>/\*\*/.test(line)\<close>\<close>

definition emphasisPrefix :: "jstring \<Rightarrow> bool" where
  "emphasisPrefix line =
     (let marks = takeWhile (\<lambda>c. c = 35 \<or> c = 42) line in
      1 \<le> length marks \<and> length marks \<le> 3 \<and>
      (case dropWhile (\<lambda>c. c = 35 \<or> c = 42) line of [] \<Rightarrow> False | w # _ \<Rightarrow> isSpace w))"

fun hasDoubleStar :: "jstring \<Rightarrow> bool" where
  "hasDoubleStar (a # b # cs) = ((a = 42 \<and> b = 42) \<or> hasDoubleStar (b # cs))"
| "hasDoubleStar cs = False"

text \<open>\<open>detectHeading\<close> calls \<open>String.prototype.toUpperCase\<close>, whose Unicode case mapping
  is the host's; it is the parameter \<open>toUpperCase\<close> here.\<close>

definition detectHeading :: "(jstring \<Rightarrow> jstring) \<Rightarrow> jstring \<Rightarrow> bool \<times> rat" where
  "detectHeading toUpperCase text =
     (let trimmed = trim text;
          lines = nonBlankLines trimmed
      in case lines of
           [line] \<Rightarrow>
             let score = (if length line < 60 then 20 + (if length line < 40 then 10 else 0) else 0 :: nat);
                 maxScore = (30 :: nat);
                 isAllCaps = (line = toUpperCase line \<and> list_ex isUpper line);
                 isTitleCase = (case line of a # b # _ \<Rightarrow> isUpper a \<and> isLower b | _ \<Rightarrow> False);
                 score = score + (if isAllCaps then 30 else if isTitleCase then 20 else 0);
                 maxScore = maxScore + 30;
                 score = score + (if \<not> (line \<noteq> [] \<and> isTerminator (last line)) then 15 else 0);
                 maxScore = maxScore + 15;
                 headingKeywords = list_ex (\<lambda>k. ciPrefix k line)
                   [js ''summary'', js ''skills'', js ''experience'', js ''education'', js ''projects'',
                    js ''certifications'', js ''about'', js ''overview'', js ''background'',
                    js ''qualifications''];
                 score = score + (if headingKeywords then 25 else 0);
                 maxScore = maxScore + 25;
                 score = score + (if emphasisPrefix line \<or> hasDoubleStar line then 20 else 0);
                 maxScore = maxScore + 20;
                 confidence = (of_nat score / of_nat maxScore :: rat)
             in (confidence > 4 / 10, confidence)
         | _ \<Rightarrow> (False, 0))"

definition detectHeaderFooter :: "jstring \<Rightarrow> bool" where
  "detectHeaderFooter text =
     (let trimmed = trim text in
      if pageNumberPattern False trimmed then True
      else if length trimmed < 30 \<and> length trimmed > 0 \<and>
              (list_ex (\<lambda>k. ciPrefix k trimmed)
                 [js ''confidential'', js ''draft'', js ''proprietary'', js ''copyright'', [169]]
               \<or> (length trimmed \<ge> 4 \<and> list_all isDigit (take 4 trimmed)))
           then True
      else if list_ex (\<lambda>k. length k = length trimmed \<and> ciPrefix k trimmed)
                [js ''http://'', js ''https://'', js ''www.'']
              \<or> emailPattern trimmed
           then True
      else False)"

definition analyzeContentBlock ::
  "(jstring \<Rightarrow> jstring) \<Rightarrow> jstring \<Rightarrow> nat \<Rightarrow> nat \<Rightarrow> ContentBlock" where
  "analyzeContentBlock toUpperCase text startLine' endLine' =
     (if detectHeaderFooter text then
        \<lparr>blockText = text, blockType = TextType, blockConfidence = 0,
         startLine = startLine', endLine = endLine'\<rparr>
      else
        let headingResult = detectHeading toUpperCase text in
        if fst headingResult then
          \<lparr>blockText = text, blockType = HeadingType, blockConfidence = snd headingResult,
           startLine = startLine', endLine = endLine'\<rparr>
        else
          let tableResult = detectTable text in
          if fst tableResult then
            \<lparr>blockText = text, blockType = TableType, blockConfidence = snd tableResult,
             startLine = startLine', endLine = endLine'\<rparr>
          else
            let listResult = detectList text in
            if fst listResult then
              \<lparr>blockText = text, blockType = ListType, blockConfidence = snd listResult,
               startLine = startLine', endLine = endLine'\<rparr>
            else
              \<lparr>blockText = text, blockType = TextType, blockConfidence = 1,
               startLine = startLine', endLine = endLine'\<rparr>)"

text \<open>\<open>text.split(/\n\n+/)\<close>: the text between the runs of two or more newlines.  (The
  first case of the inner \<open>case\<close> cannot occur.)\<close>

function splitParagraphs :: "jstring \<Rightarrow> jstring list" where
  "splitParagraphs [] = [[]]"
| "splitParagraphs (c # cs) =
     (if c = 10 \<and> takeWhile (\<lambda>x. x = 10) cs \<noteq> []
      then [] # splitParagraphs (dropWhile (\<lambda>x. x = 10) cs)
      else (case splitParagraphs cs of [] \<Rightarrow> [[c]] | p # ps \<Rightarrow> (c # p) # ps))"
  by pat_completeness auto
termination
  by (relation "measure length") (auto simp: less_Suc_eq_le length_dropWhile_le)

text \<open>The body of the loop over the paragraphs, on the blocks pushed so far and the
  line number.\<close>

definition segmentStep ::
  "(jstring \<Rightarrow> jstring) \<Rightarrow> ContentBlock list \<times> nat \<Rightarrow> jstring \<Rightarrow> ContentBlock list \<times> nat" where
  "segmentStep toUpperCase state paragraph =
     (case state of
        (blocks, lineNumber) \<Rightarrow>
          let trimmed = trim paragraph in
          if trimmed = [] then (blocks, lineNumber)
          else
            let lines = length (splitLines trimmed);
                block = analyzeContentBlock toUpperCase trimmed lineNumber (lineNumber + lines - 1)
            in (if blockConfidence block > 0 then blocks @ [block] else blocks,
                lineNumber + lines + 2))"

definition segmentIntoBlocks :: "(jstring \<Rightarrow> jstring) \<Rightarrow> jstring \<Rightarrow> ContentBlock list" where
  "segmentIntoBlocks toUpperCase text =
     fst (foldl (segmentStep toUpperCase) ([], 0) (splitParagraphs text))"

section \<open>Chunker\<close>

datatype Confidence = High | Medium | Low

record ChunkMetadata =
  chunkIndex :: nat
  pageNumber :: "nat option"
  contentType :: ContentType
  confidence :: Confidence
  hasOverlap :: bool
  originalLength :: nat

record Chunk =
  content :: jstring
  metadata :: ChunkMetadata

record ChunkingConfig =
  maxChunkSize :: nat
  overlapSize :: nat
  tableMaxSize :: nat
  minChunkSize :: nat

definition DEFAULT_CONFIG :: ChunkingConfig where
  "DEFAULT_CONFIG = \<lparr>maxChunkSize = 1000, overlapSize = 200, tableMaxSize = 2000, minChunkSize = 100\<rparr>"

text \<open>What can go wrong: a method call on \<open>undefined\<close>.\<close>

datatype error = TypeError

text \<open>The chunk literal every splitter pushes: no page number, no overlap, and the
  length of the content as the original length.\<close>

definition newChunk :: "jstring \<Rightarrow> nat \<Rightarrow> ContentType \<Rightarrow> Confidence \<Rightarrow> Chunk" where
  "newChunk text index type conf =
     \<lparr>content = text,
      metadata = \<lparr>chunkIndex = index, pageNumber = None, contentType = type, confidence = conf,
                  hasOverlap = False, originalLength = length text\<rparr>\<rparr>"

subsection \<open>addOverlap\<close>

definition addOverlap :: "Chunk list \<Rightarrow> nat \<Rightarrow> Chunk list" where
  "addOverlap chunks overlap =
     (if length chunks \<le> 1 \<or> overlap = 0 then chunks
      else map (\<lambda>i.
             let chunk = chunks ! i;
                 overlapText = sliceLast overlap (content (chunks ! (i - 1)))
             in if i > 0 \<and> \<not> startsWith (content chunk) (take 50 overlapText)
                then \<lparr>content = overlapText @ [10, 10] @ content chunk,
                      metadata = (metadata chunk)\<lparr>hasOverlap := True\<rparr>\<rparr>
                else \<lparr>content = content chunk,
                      metadata = (metadata chunk)\<lparr>hasOverlap := False\<rparr>\<rparr>)
           [0 ..< length chunks])"

subsection \<open>chunkTableByRows\<close>

text \<open>The header lines.  With a single line, \<open>lines[1]\<close> is \<open>undefined\<close> and the
  second operand of \<open>||\<close> calls \<open>includes\<close> on it.\<close>

definition tableHeaderLines :: "jstring list \<Rightarrow> error + jstring list" where
  "tableHeaderLines lines =
     (case lines of
        [] \<Rightarrow> Inr []
      | [l0] \<Rightarrow> Inl TypeError
      | l0 # l1 # _ \<Rightarrow>
          if strIncludes l1 45 \<or> strIncludes l1 61 then Inr [l0, l1] else Inr [l0])"

text \<open>The body of the loop over the data lines, on the state of the source: the
  chunks pushed so far, the current chunk and the current index.\<close>

definition tableStep ::
  "ChunkingConfig \<Rightarrow> jstring \<Rightarrow> Chunk list \<times> jstring \<times> nat \<Rightarrow> jstring \<Rightarrow> Chunk list \<times> jstring \<times> nat" where
  "tableStep config header state line =
     (case state of
        (chunks, currentChunk, currentIndex) \<Rightarrow>
          let potentialChunk = currentChunk @ [10] @ line in
          if length potentialChunk > tableMaxSize config \<and> currentChunk \<noteq> header
          then (chunks @ [newChunk currentChunk currentIndex TableType High],
                header @ [10] @ line, currentIndex + 1)
          else (chunks, potentialChunk, currentIndex))"

definition chunkTableByRows :: "ContentBlock \<Rightarrow> nat \<Rightarrow> ChunkingConfig \<Rightarrow> error + Chunk list" where
  "chunkTableByRows block startIndex config =
     (let lines = splitLines (blockText block) in
      case tableHeaderLines lines of
        Inl e \<Rightarrow> Inl e
      | Inr headerLines \<Rightarrow>
          let dataLines = drop (length headerLines) lines;
              header = joinLines headerLines
          in case foldl (tableStep config header) ([], header, startIndex) dataLines of
               (chunks, currentChunk, currentIndex) \<Rightarrow>
                 if length currentChunk > length header
                 then Inr (chunks @ [newChunk currentChunk currentIndex TableType High])
                 else Inr chunks)"

subsection \<open>chunkListByItems\<close>

definition listStep ::
  "ChunkingConfig \<Rightarrow> Chunk list \<times> jstring \<times> nat \<Rightarrow> jstring \<Rightarrow> Chunk list \<times> jstring \<times> nat" where
  "listStep config state line =
     (case state of
        (chunks, currentChunk, currentIndex) \<Rightarrow>
          let trimmed = trim line in
          if trimmed = [] then (chunks, currentChunk, currentIndex)
          else
            let potentialChunk = currentChunk @ (if currentChunk \<noteq> [] then [10] else []) @ line in
            if length potentialChunk > maxChunkSize config \<and> length currentChunk > 0
            then (chunks @ [newChunk currentChunk currentIndex ListType High], line, currentIndex + 1)
            else (chunks, potentialChunk, currentIndex))"

definition chunkListByItems :: "ContentBlock \<Rightarrow> nat \<Rightarrow> ChunkingConfig \<Rightarrow> Chunk list" where
  "chunkListByItems block startIndex config =
     (case foldl (listStep config) ([], [], startIndex) (splitLines (blockText block)) of
        (chunks, currentChunk, currentIndex) \<Rightarrow>
          if currentChunk \<noteq> []
          then chunks @ [newChunk currentChunk currentIndex ListType High]
          else chunks)"

subsection \<open>chunkTextBySentences\<close>

text \<open>\<open>text.match(/[^.!?]+[.!?]+/g)\<close>, as the list of the matches (empty where the
  source gets \<open>null\<close>).  A match starts at a character that is no terminator and takes
  the run of such characters and the run of terminators behind it; where no terminator
  follows, the match fails and the search moves on by one character.\<close>

function matchSentences :: "jstring \<Rightarrow> jstring list" where
  "matchSentences [] = []"
| "matchSentences (c # cs) =
     (let body = takeWhile (\<lambda>x. \<not> isTerminator x) (c # cs);
          behind = dropWhile (\<lambda>x. \<not> isTerminator x) (c # cs)
      in if body \<noteq> [] \<and> takeWhile isTerminator behind \<noteq> []
         then (body @ takeWhile isTerminator behind) # matchSentences (dropWhile isTerminator behind)
         else matchSentences cs)"
  by pat_completeness auto
termination
proof (relation "measure length")
  fix c :: nat and cs body behind :: jstring
  assume b: "behind = dropWhile (\<lambda>x. \<not> isTerminator x) (c # cs)"
    and n: "body \<noteq> [] \<and> takeWhile isTerminator behind \<noteq> []"
  from n have "behind \<noteq> []" by auto
  then have "length (dropWhile isTerminator behind) < length behind"
    using n by (cases behind) (auto simp: less_Suc_eq_le length_dropWhile_le split: if_splits)
  moreover have "length behind \<le> length (c # cs)"
    unfolding b by (rule length_dropWhile_le)
  ultimately show "(dropWhile isTerminator behind, c # cs) \<in> measure length" by simp
qed simp_all

definition sentenceStep ::
  "ChunkingConfig \<Rightarrow> ContentBlock \<Rightarrow> Chunk list \<times> jstring \<times> nat \<Rightarrow> jstring
     \<Rightarrow> Chunk list \<times> jstring \<times> nat" where
  "sentenceStep config block state sentence =
     (case state of
        (chunks, currentChunk, currentIndex) \<Rightarrow>
          let trimmed = trim sentence in
          if trimmed = [] then (chunks, currentChunk, currentIndex)
          else
            let potentialChunk = currentChunk @ (if currentChunk \<noteq> [] then [32] else []) @ trimmed in
            if length potentialChunk > maxChunkSize config \<and> length currentChunk \<ge> minChunkSize config
            then (chunks @ [newChunk currentChunk currentIndex (blockType block)
                              (if blockConfidence block > 7 / 10 then High else Medium)],
                  trimmed, currentIndex + 1)
            else (chunks, potentialChunk, currentIndex))"

definition chunkTextBySentences :: "ContentBlock \<Rightarrow> nat \<Rightarrow> ChunkingConfig \<Rightarrow> Chunk list" where
  "chunkTextBySentences block startIndex config =
     (let matches = matchSentences (blockText block);
          sentences = (if matches = [] then [blockText block] else matches)
      in case foldl (sentenceStep config block) ([], [], startIndex) sentences of
           (chunks, currentChunk, currentIndex) \<Rightarrow>
             if currentChunk \<noteq> [] \<and> length currentChunk \<ge> minChunkSize config
             then chunks @ [newChunk currentChunk currentIndex (blockType block)
                              (if blockConfidence block > 7 / 10 then High else Medium)]
             else if currentChunk \<noteq> [] \<and> length chunks > 0
             then (let lastChunk = last chunks;
                       merged = content lastChunk @ [32] @ currentChunk
                   in butlast chunks @
                      [\<lparr>content = merged,
                        metadata = (metadata lastChunk)\<lparr>originalLength := length merged\<rparr>\<rparr>])
             else if currentChunk \<noteq> []
             then chunks @ [newChunk currentChunk currentIndex (blockType block) Low]
             else chunks)"

subsection \<open>chunkBlock and semanticChunk\<close>

definition chunkBlock :: "ContentBlock \<Rightarrow> nat \<Rightarrow> ChunkingConfig \<Rightarrow> error + Chunk list" where
  "chunkBlock block index config =
     (let maxSize = (if blockType block = TableType then tableMaxSize config else maxChunkSize config) in
      if length (blockText block) \<le> maxSize
      then Inr [newChunk (blockText block) index (blockType block)
                  (if blockConfidence block > 7 / 10 then High
                   else if blockConfidence block > 4 / 10 then Medium else Low)]
      else if blockType block = TableType then chunkTableByRows block index config
      else if blockType block = ListType then Inr (chunkListByItems block index config)
      else Inr (chunkTextBySentences block index config))"

text \<open>The loop over the blocks: each block's chunks get the page number, when one is
  given, and the index moves on by their number.\<close>

fun chunkBlocks ::
  "ChunkingConfig \<Rightarrow> nat option \<Rightarrow> ContentBlock list \<Rightarrow> Chunk list \<Rightarrow> nat \<Rightarrow> error + Chunk list" where
  "chunkBlocks config page [] allChunks index = Inr allChunks"
| "chunkBlocks config page (block # blocks) allChunks index =
     (case chunkBlock block index config of
        Inl e \<Rightarrow> Inl e
      | Inr blockChunks \<Rightarrow>
          let blockChunks =
                (if page \<noteq> None
                 then map (\<lambda>chunk. chunk\<lparr>metadata := (metadata chunk)\<lparr>pageNumber := page\<rparr>\<rparr>) blockChunks
                 else blockChunks)
          in chunkBlocks config page blocks (allChunks @ blockChunks) (index + length blockChunks))"

text \<open>The options \<open>semanticChunk\<close> preprocesses with.\<close>

definition chunkerOptions :: PreprocessOptions where
  "chunkerOptions =
     \<lparr>removeRepeated = Some True, removePageNumbersOpt = Some True, fixOCR = Some False,
      removeLinks = Some False\<rparr>"

text \<open>The chunks before the overlap is added (the \<open>allChunks\<close> of the source), and
  \<open>semanticChunk\<close> itself.\<close>

definition allChunksOf ::
  "(jstring \<Rightarrow> jstring) \<Rightarrow> jstring \<Rightarrow> nat option \<Rightarrow> ChunkingConfig \<Rightarrow> error + Chunk list" where
  "allChunksOf toUpperCase text page config =
     chunkBlocks config page (segmentIntoBlocks toUpperCase (preprocessText text chunkerOptions)) [] 0"

definition semanticChunk ::
  "(jstring \<Rightarrow> jstring) \<Rightarrow> jstring \<Rightarrow> nat option \<Rightarrow> ChunkingConfig \<Rightarrow> error + Chunk list" where
  "semanticChunk toUpperCase text page config =
     (let cleanedText = preprocessText text chunkerOptions;
          blocks = segmentIntoBlocks toUpperCase cleanedText
      in if length blocks = 0 then Inr []
         else case chunkBlocks config page blocks [] 0 of
                Inl e \<Rightarrow> Inl e
              | Inr allChunks \<Rightarrow>
                  let chunksWithOverlap = addOverlap allChunks (overlapSize config);
                      finalChunks = filter (\<lambda>chunk. length (trim (content chunk)) \<ge> minChunkSize config)
                                      chunksWithOverlap
                  in Inr finalChunks)"

section \<open>Overlap injection\<close>

lemma addOverlap_nth:
  assumes "i < length chunks" "1 < length chunks" "0 < overlap"
  shows "addOverlap chunks overlap ! i =
     (let chunk = chunks ! i;
          overlapText = sliceLast overlap (content (chunks ! (i - 1)))
      in if i > 0 \<and> \<not> startsWith (content chunk) (take 50 overlapText)
         then \<lparr>content = overlapText @ [10, 10] @ content chunk,
               metadata = (metadata chunk)\<lparr>hasOverlap := True\<rparr>\<rparr>
         else \<lparr>content = content chunk,
               metadata = (metadata chunk)\<lparr>hasOverlap := False\<rparr>\<rparr>)"
  using assms by (simp add: addOverlap_def)

lemma length_addOverlap: "length (addOverlap chunks overlap) = length chunks"
  by (simp add: addOverlap_def)

text \<open>
  Claim C6.  During overlap injection (more than one chunk, a positive overlap size), a
  chunk at a position \<open>i > 0\<close> whose content already starts with the tail of the chunk
  before it, the last \<open>overlapSize\<close> characters of that chunk's content, keeps its
  content, and its \<open>hasOverlap\<close> is false.
\<close>

theorem addOverlap_keeps_chunk_that_starts_with_tail:
  assumes "0 < i" and "i < length chunks" and "0 < overlap"
    and "startsWith (content (chunks ! i)) (sliceLast overlap (content (chunks ! (i - 1))))"
  shows "content (addOverlap chunks overlap ! i) = content (chunks ! i)
       \<and> \<not> hasOverlap (metadata (addOverlap chunks overlap ! i))"
proof -
  let ?t = "sliceLast overlap (content (chunks ! (i - 1)))"
  have "prefix (take 50 ?t) ?t" by (rule take_is_prefix)
  from prefix_order.trans [OF this] assms(4)
  have "startsWith (content (chunks ! i)) (take 50 ?t)"
    unfolding startsWith_def by simp
  moreover from assms have "1 < length chunks" by simp
  ultimately show ?thesis
    using assms(2,3) by (simp add: addOverlap_nth Let_def)
qed

theorem addOverlap_keeps_chunk_witness:
  "(0::nat) < 1 \<and> 1 < length [newChunk (js ''abc'') 0 TextType High, newChunk (js ''bcd'') 1 TextType High]
   \<and> (0::nat) < 2
   \<and> startsWith (js ''bcd'') (sliceLast 2 (js ''abc''))
   \<and> content (addOverlap [newChunk (js ''abc'') 0 TextType High, newChunk (js ''bcd'') 1 TextType High] 2 ! 1) = js ''bcd''
   \<and> \<not> hasOverlap (metadata (addOverlap [newChunk (js ''abc'') 0 TextType High, newChunk (js ''bcd'') 1 TextType High] 2 ! 1))"
  using addOverlap_keeps_chunk_that_starts_with_tail
    [of 1 "[newChunk (js ''abc'') 0 TextType High, newChunk (js ''bcd'') 1 TextType High]" 2]
  by (simp add: newChunk_def js_def startsWith_def sliceLast_def)

section \<open>Table splitter\<close>

text \<open>An invariant of a loop body holds after the loop.\<close>

lemma foldl_invariant:
  assumes "P s" and "\<And>s x. P s \<Longrightarrow> x \<in> set xs \<Longrightarrow> P (f s x)"
  shows "P (foldl f s xs)"
  using assms by (induction xs arbitrary: s) auto

definition headed :: "jstring \<Rightarrow> Chunk list \<times> jstring \<times> nat \<Rightarrow> bool" where
  "headed header state \<longleftrightarrow>
     (case state of (chunks, currentChunk, currentIndex) \<Rightarrow>
        prefix header currentChunk \<and> (\<forall>c \<in> set chunks. prefix header (content c)))"

lemma tableStep_headed: "headed header s \<Longrightarrow> headed header (tableStep config header s line)"
  by (auto simp: headed_def tableStep_def Let_def newChunk_def prefix_def split: prod.splits)

lemma tableLoop_headed: "headed header (foldl (tableStep config header) ([], header, i) ls)"
proof (rule foldl_invariant [where P = "headed header"])
  show "headed header ([], header, i)" by (simp add: headed_def)
qed (rule tableStep_headed)

lemma chunkTableByRows_headed:
  assumes "chunkTableByRows block i config = Inr chunks"
    and "tableHeaderLines (splitLines (blockText block)) = Inr headerLines"
    and "c \<in> set chunks"
  shows "prefix (joinLines headerLines) (content c)"
proof -
  let ?h = "joinLines headerLines"
  let ?ls = "drop (length headerLines) (splitLines (blockText block))"
  obtain cs cur k where st: "foldl (tableStep config ?h) ([], ?h, i) ?ls = (cs, cur, k)"
    by (cases "foldl (tableStep config ?h) ([], ?h, i) ?ls") auto
  from tableLoop_headed [of ?h config i ?ls] st
  have h: "prefix ?h cur" "\<forall>c \<in> set cs. prefix ?h (content c)"
    by (simp_all add: headed_def)
  from assms(1,2) st have "chunks = cs @ [newChunk cur k TableType High] \<or> chunks = cs"
    by (auto simp: chunkTableByRows_def Let_def split: if_splits)
  with assms(3) h show ?thesis by (auto simp: newChunk_def)
qed

text \<open>
  Claim C5.  When a table block longer than \<open>tableMaxSize\<close> is split by
  \<open>chunkTableByRows\<close> into two or more chunks, the content of every chunk starts with
  the header: the first line of the block, followed by the second line when that contains
  \<open>-\<close> or \<open>=\<close>.  (On a block of one line \<open>chunkTableByRows\<close> raises, so a block that is
  split has two lines or more.)
\<close>

theorem table_chunks_start_with_header:
  assumes "length (blockText block) > tableMaxSize config"
    and "chunkTableByRows block i config = Inr chunks"
    and "length chunks \<ge> 2"
    and "splitLines (blockText block) = l0 # l1 # dataLines"
    and "c \<in> set chunks"
  shows "startsWith (content c)
           (if strIncludes l1 45 \<or> strIncludes l1 61 then l0 @ [10] @ l1 else l0)"
proof -
  let ?hs = "if strIncludes l1 45 \<or> strIncludes l1 61 then [l0, l1] else [l0]"
  from assms(4) have "tableHeaderLines (splitLines (blockText block)) = Inr ?hs"
    by (simp add: tableHeaderLines_def)
  from chunkTableByRows_headed [OF assms(2) this assms(5)]
  show ?thesis by (cases "strIncludes l1 45 \<or> strIncludes l1 61") (simp_all add: startsWith_def)
qed

definition smallTable :: ContentBlock where
  "smallTable = \<lparr>blockText = js ''h|h\<newline>-|-\<newline>a|b\<newline>c|d'', blockType = TableType,
     blockConfidence = 5 / 8, startLine = 0, endLine = 3\<rparr>"

definition tinyConfig :: ChunkingConfig where
  "tinyConfig = \<lparr>maxChunkSize = 10, overlapSize = 2, tableMaxSize = 12, minChunkSize = 1\<rparr>"

lemma smallTable_chunks:
  "chunkTableByRows smallTable 0 tinyConfig =
     Inr [newChunk (js ''h|h\<newline>-|-\<newline>a|b'') 0 TableType High,
          newChunk (js ''h|h\<newline>-|-\<newline>c|d'') 1 TableType High]"
  by (simp add: chunkTableByRows_def smallTable_def tinyConfig_def js_def tableHeaderLines_def
        strIncludes_def tableStep_def newChunk_def)

theorem table_chunks_start_with_header_witness:
  "length (blockText smallTable) > tableMaxSize tinyConfig
   \<and> chunkTableByRows smallTable 0 tinyConfig =
       Inr [newChunk (js ''h|h\<newline>-|-\<newline>a|b'') 0 TableType High,
            newChunk (js ''h|h\<newline>-|-\<newline>c|d'') 1 TableType High]
   \<and> splitLines (blockText smallTable) = js ''h|h'' # js ''-|-'' # [js ''a|b'', js ''c|d'']
   \<and> startsWith (js ''h|h\<newline>-|-\<newline>c|d'') (js ''h|h\<newline>-|-'')"
proof -
  have 1: "length (blockText smallTable) > tableMaxSize tinyConfig"
    by (simp add: smallTable_def tinyConfig_def js_def)
  have 2: "length [newChunk (js ''h|h\<newline>-|-\<newline>a|b'') 0 TableType High,
                   newChunk (js ''h|h\<newline>-|-\<newline>c|d'') 1 TableType High] \<ge> 2"
    by simp
  have 3: "splitLines (blockText smallTable) = js ''h|h'' # js ''-|-'' # [js ''a|b'', js ''c|d'']"
    by (simp add: smallTable_def js_def)
  have 4: "newChunk (js ''h|h\<newline>-|-\<newline>c|d'') 1 TableType High
             \<in> set [newChunk (js ''h|h\<newline>-|-\<newline>a|b'') 0 TableType High,
                    newChunk (js ''h|h\<newline>-|-\<newline>c|d'') 1 TableType High]"
    by simp
  from table_chunks_start_with_header [OF 1 smallTable_chunks 2 3 4]
  have "startsWith (js ''h|h\<newline>-|-\<newline>c|d'') (js ''h|h\<newline>-|-'')"
    by (simp add: newChunk_def js_def strIncludes_def)
  with 1 smallTable_chunks 3 show ?thesis by simp
qed

section \<open>Repeated-line removal\<close>

lemma splitLines_not_empty: "splitLines s \<noteq> []"
  by (induction s) (auto split: list.splits)

lemma joinLines_Cons_Cons: "joinLines ((c # l) # ls) = c # joinLines (l # ls)"
  by (cases ls) simp_all

lemma joinLines_splitLines: "joinLines (splitLines s) = s"
proof (induction s)
  case Nil
  show ?case by simp
next
  case (Cons c cs)
  obtain l ls where sp: "splitLines cs = l # ls"
    using splitLines_not_empty [of cs] by (cases "splitLines cs") auto
  with Cons show ?case by (simp add: joinLines_Cons_Cons)
qed

text \<open>The count a key has in the association list, none when the key is absent.\<close>

definition freq :: "(jstring \<times> nat) list \<Rightarrow> jstring \<Rightarrow> nat" where
  "freq m k = (case map_of m k of None \<Rightarrow> 0 | Some n \<Rightarrow> n)"

definition counted :: "jstring \<Rightarrow> bool" where
  "counted k \<longleftrightarrow> 5 < length k \<and> length k < 100"

text \<open>The amended reading of the rule: a line is repeated when its trimmed content has
  between 6 and 99 characters and is the trimmed content of more than two lines.\<close>

definition repeatedLine :: "jstring list \<Rightarrow> jstring \<Rightarrow> bool" where
  "repeatedLine lines line \<longleftrightarrow>
     5 < length (trim line) \<and> length (trim line) < 100 \<and>
     2 < count_list (map trim lines) (trim line)"

text \<open>The rule as the specification words it: lengths 5 to 99.\<close>

definition repeatedLineSpec :: "jstring list \<Rightarrow> jstring \<Rightarrow> bool" where
  "repeatedLineSpec lines line \<longleftrightarrow>
     5 \<le> length (trim line) \<and> length (trim line) \<le> 99 \<and>
     2 < count_list (map trim lines) (trim line)"

lemma map_of_bump:
  "map_of (bump k m) x = (if x = k then Some (freq m k + 1) else map_of m x)"
  by (induction m) (auto simp: freq_def)

lemma freq_bump: "freq (bump k m) x = freq m x + (if x = k then 1 else 0)"
  by (simp add: freq_def map_of_bump)

lemma keys_bump: "fst ` set (bump k m) = insert k (fst ` set m)"
proof (induction m)
  case Nil
  show ?case by simp
next
  case (Cons p m)
  obtain k' n where p: "p = (k', n)" by (cases p)
  show ?case
  proof (cases "k = k'")
    case True
    then show ?thesis by (simp add: p)
  next
    case False
    with Cons show ?thesis by (simp add: p insert_commute)
  qed
qed

lemma distinct_bump: "distinct (map fst m) \<Longrightarrow> distinct (map fst (bump k m))"
proof (induction m)
  case Nil
  show ?case by simp
next
  case (Cons p m)
  obtain k' n where p: "p = (k', n)" by (cases p)
  from Cons keys_bump [of k m] show ?case by (auto simp: p)
qed

lemma freq_countLines:
  "freq (countLines lines m) x = freq m x + count_list (filter counted (map trim lines)) x"
  by (induction lines arbitrary: m) (auto simp: Let_def freq_bump counted_def)

lemma distinct_countLines:
  "distinct (map fst m) \<Longrightarrow> distinct (map fst (countLines lines m))"
  by (induction lines arbitrary: m) (auto simp: Let_def distinct_bump)

lemma count_list_filter:
  "count_list (filter P xs) x = (if P x then count_list xs x else 0)"
  by (induction xs) auto

lemma repeated_keys:
  assumes "distinct (map fst m)"
  shows "k \<in> set (map fst (filter (\<lambda>(line, count). count > 2) m)) \<longleftrightarrow> 2 < freq m k"
proof
  assume "k \<in> set (map fst (filter (\<lambda>(line, count). count > 2) m))"
  then obtain n where "(k, n) \<in> set m" "2 < n" by auto
  with assms show "2 < freq m k" by (simp add: freq_def)
next
  assume "2 < freq m k"
  then obtain n where "map_of m k = Some n" "2 < n"
    by (auto simp: freq_def split: option.splits)
  then have "(k, n) \<in> set (filter (\<lambda>(line, count). count > 2) m)"
    by (auto dest: map_of_SomeD)
  then show "k \<in> set (map fst (filter (\<lambda>(line, count). count > 2) m))"
    by (metis fst_conv image_eqI set_map)
qed

lemma repeatedLines_iff:
  "trim line \<in> set (map fst (filter (\<lambda>(line, count). count > 2) (countLines lines [])))
     \<longleftrightarrow> repeatedLine lines line"
proof -
  have d: "distinct (map fst (countLines lines []))"
    by (rule distinct_countLines) simp
  have z: "freq [] k = 0" for k by (simp add: freq_def)
  have "freq (countLines lines []) (trim line)
          = (if counted (trim line) then count_list (map trim lines) (trim line) else 0)"
    by (simp add: freq_countLines count_list_filter z)
  with repeated_keys [OF d, of "trim line"] show ?thesis
    by (auto simp: repeatedLine_def counted_def split: if_splits)
qed

lemma removeRepeatedSections_filter:
  "removeRepeatedSections text =
     joinLines (filter (\<lambda>line. \<not> repeatedLine (splitLines text) line) (splitLines text))"
proof -
  let ?lines = "splitLines text"
  let ?rep = "map fst (filter (\<lambda>(line, count). count > 2) (countLines ?lines []))"
  have f: "filter (\<lambda>line. trim line \<notin> set ?rep) ?lines
             = filter (\<lambda>line. \<not> repeatedLine ?lines line) ?lines"
    by (rule filter_cong) (simp_all only: repeatedLines_iff)
  show ?thesis
  proof (cases "length ?rep > 0")
    case True
    with f show ?thesis by (simp add: removeRepeatedSections_def Let_def)
  next
    case False
    then have "?rep = []" by simp
    then have "filter (\<lambda>line. trim line \<notin> set ?rep) ?lines = ?lines" by simp
    with f have "joinLines (filter (\<lambda>line. \<not> repeatedLine ?lines line) ?lines) = text"
      by (simp add: joinLines_splitLines)
    with False show ?thesis by (simp add: removeRepeatedSections_def Let_def)
  qed
qed

text \<open>
  Claim C9, amended.  \<open>removeRepeatedSections\<close> removes exactly the lines whose trimmed
  content has between 6 and 99 characters and occurs, as the trimmed content of a line,
  more than twice in the text; it removes every such line and keeps all other lines, in
  order and unchanged.
\<close>

theorem removeRepeatedSections_removes_repeated_lines:
  "removeRepeatedSections text =
     joinLines (filter (\<lambda>line. \<not> repeatedLine (splitLines text) line) (splitLines text))"
  by (rule removeRepeatedSections_filter)

text \<open>
  Claim C9 as stated fails: three lines \<open>abcde\<close> have five characters each and occur more
  than twice, so the rule of the specification removes them all, and the code keeps them.
\<close>

theorem removeRepeatedSections_keeps_five_character_lines:
  "removeRepeatedSections (js ''abcde\<newline>abcde\<newline>abcde'') = js ''abcde\<newline>abcde\<newline>abcde''
   \<and> joinLines (filter (\<lambda>line. \<not> repeatedLineSpec (splitLines (js ''abcde\<newline>abcde\<newline>abcde'')) line)
        (splitLines (js ''abcde\<newline>abcde\<newline>abcde''))) = []"
  by (simp add: removeRepeatedSections_def js_def trim_def isSpace_def repeatedLineSpec_def)

section \<open>Invariants of the splitters\<close>

text \<open>A chunk as a splitter makes it: no overlap, and the length of its content as its
  original length.  A list of chunks numbered from \<open>k\<close> on.\<close>

definition fresh :: "Chunk \<Rightarrow> bool" where
  "fresh c \<longleftrightarrow> \<not> hasOverlap (metadata c) \<and> originalLength (metadata c) = length (content c)"

definition indexedFrom :: "nat \<Rightarrow> Chunk list \<Rightarrow> bool" where
  "indexedFrom k chunks \<longleftrightarrow> map (\<lambda>c. chunkIndex (metadata c)) chunks = [k ..< k + length chunks]"

lemma indexedFrom_Nil: "indexedFrom k []"
  by (simp add: indexedFrom_def)

lemma indexedFrom_snoc:
  "indexedFrom k (chunks @ [c]) \<longleftrightarrow> indexedFrom k chunks \<and> chunkIndex (metadata c) = k + length chunks"
  by (auto simp: indexedFrom_def)

lemma indexedFrom_append:
  assumes "indexedFrom k xs" and "indexedFrom (k + length xs) ys"
  shows "indexedFrom k (xs @ ys)"
proof -
  have "[k ..< k + length xs + length ys] = [k ..< k + length xs] @ [k + length xs ..< k + length xs + length ys]"
    by (rule upt_add_eq_append) simp
  with assms show ?thesis by (simp add: indexedFrom_def add.assoc)
qed

lemma indexedFrom_nth: "indexedFrom k chunks \<Longrightarrow> i < length chunks \<Longrightarrow> chunkIndex (metadata (chunks ! i)) = k + i"
proof -
  assume a: "indexedFrom k chunks" and i: "i < length chunks"
  from i have "chunkIndex (metadata (chunks ! i)) = map (\<lambda>c. chunkIndex (metadata c)) chunks ! i"
    by simp
  also from a have "\<dots> = [k ..< k + length chunks] ! i" by (simp add: indexedFrom_def)
  also from i have "\<dots> = k + i" by simp
  finally show ?thesis .
qed

lemma fresh_newChunk: "fresh (newChunk text i type conf)"
  by (simp add: fresh_def newChunk_def)

lemma index_newChunk: "chunkIndex (metadata (newChunk text i type conf)) = i"
  by (simp add: newChunk_def)

lemma type_newChunk: "contentType (metadata (newChunk text i type conf)) = type"
  by (simp add: newChunk_def)

text \<open>The invariant of the three splitting loops, on the state (chunks pushed, current
  chunk, current index): the chunks are numbered from the start index, the current index
  is the next number, and every chunk is as made, with the type of the block.\<close>

definition loopInv :: "nat \<Rightarrow> ContentType \<Rightarrow> Chunk list \<times> jstring \<times> nat \<Rightarrow> bool" where
  "loopInv start type state \<longleftrightarrow>
     (case state of (chunks, currentChunk, currentIndex) \<Rightarrow>
        indexedFrom start chunks \<and> currentIndex = start + length chunks \<and>
        (\<forall>c \<in> set chunks. fresh c \<and> contentType (metadata c) = type))"

lemma loopInv_start: "loopInv start type ([], text, start)"
  by (simp add: loopInv_def indexedFrom_Nil)

lemma loopInv_push:
  assumes "loopInv start type (chunks, cur, i)"
  shows "loopInv start type (chunks @ [newChunk text i type conf], cur', Suc i)"
  using assms
  by (auto simp: loopInv_def indexedFrom_snoc fresh_newChunk index_newChunk type_newChunk)

lemma loopInv_keep: "loopInv start type (chunks, cur, i) \<Longrightarrow> loopInv start type (chunks, cur', i)"
  by (simp add: loopInv_def)

lemma tableStep_inv: "loopInv start TableType s \<Longrightarrow> loopInv start TableType (tableStep config header s line)"
  by (cases s)
     (auto simp: tableStep_def Let_def loopInv_def indexedFrom_snoc fresh_newChunk index_newChunk
        type_newChunk)

lemma if_cases: "P a \<Longrightarrow> P b \<Longrightarrow> P (if c then a else b)"
  by simp

lemma listStep_result:
  "listStep config (chunks, cur, i) line =
     (if trim line = [] then (chunks, cur, i)
      else if length (cur @ (if cur \<noteq> [] then [10] else []) @ line) > maxChunkSize config \<and> cur \<noteq> []
      then (chunks @ [newChunk cur i ListType High], line, Suc i)
      else (chunks, cur @ (if cur \<noteq> [] then [10] else []) @ line, i))"
  unfolding listStep_def Let_def prod.case by (cases "cur = []") simp_all

lemma listStep_inv: "loopInv start ListType s \<Longrightarrow> loopInv start ListType (listStep config s line)"
proof -
  assume a: "loopInv start ListType s"
  obtain chunks cur i where s: "s = (chunks, cur, i)" by (cases s)
  from a [unfolded s] have p: "loopInv start ListType (chunks @ [newChunk cur i ListType High], line, Suc i)"
    by (rule loopInv_push)
  from a [unfolded s] have k: "loopInv start ListType (chunks, cur', i)" for cur'
    by (rule loopInv_keep)
  show ?thesis
    unfolding s listStep_result
    by (rule if_cases, rule k, rule if_cases, rule p, rule k)
qed

lemma sentenceStep_inv:
  "loopInv start (blockType block) s \<Longrightarrow> loopInv start (blockType block) (sentenceStep config block s sentence)"
  by (cases s)
     (auto simp: sentenceStep_def Let_def loopInv_def indexedFrom_snoc fresh_newChunk index_newChunk
        type_newChunk)

text \<open>What a block's chunks are like: numbered from the given index, as made, of the
  block's type.\<close>

definition blockChunksOk :: "nat \<Rightarrow> ContentType \<Rightarrow> Chunk list \<Rightarrow> bool" where
  "blockChunksOk start type chunks \<longleftrightarrow>
     indexedFrom start chunks \<and> (\<forall>c \<in> set chunks. fresh c \<and> contentType (metadata c) = type)"

lemma loopInv_final:
  assumes "loopInv start type (chunks, cur, i)"
  shows "blockChunksOk start type chunks"
    and "blockChunksOk start type (chunks @ [newChunk text i type conf])"
  using assms
  by (auto simp: loopInv_def blockChunksOk_def indexedFrom_snoc fresh_newChunk index_newChunk
        type_newChunk)

lemma chunkTableByRows_ok:
  assumes "chunkTableByRows block start config = Inr chunks"
  shows "blockChunksOk start TableType chunks"
proof -
  from assms obtain hs where hs: "tableHeaderLines (splitLines (blockText block)) = Inr hs"
    by (auto simp: chunkTableByRows_def Let_def split: sum.splits)
  let ?h = "joinLines hs"
  let ?ls = "drop (length hs) (splitLines (blockText block))"
  obtain cs cur k where st: "foldl (tableStep config ?h) ([], ?h, start) ?ls = (cs, cur, k)"
    by (cases "foldl (tableStep config ?h) ([], ?h, start) ?ls") auto
  have "loopInv start TableType (foldl (tableStep config ?h) ([], ?h, start) ?ls)"
    by (rule foldl_invariant [where P = "loopInv start TableType"])
       (rule loopInv_start, rule tableStep_inv)
  with st have inv: "loopInv start TableType (cs, cur, k)" by simp
  from assms hs st have "chunks = cs @ [newChunk cur k TableType High] \<or> chunks = cs"
    by (auto simp: chunkTableByRows_def Let_def split: if_splits)
  with loopInv_final [OF inv] show ?thesis by auto
qed

lemma chunkListByItems_ok: "blockChunksOk start ListType (chunkListByItems block start config)"
proof -
  let ?ls = "splitLines (blockText block)"
  obtain cs cur k where st: "foldl (listStep config) ([], [], start) ?ls = (cs, cur, k)"
    by (cases "foldl (listStep config) ([], [], start) ?ls") auto
  have "loopInv start ListType (foldl (listStep config) ([], [], start) ?ls)"
    by (rule foldl_invariant [where P = "loopInv start ListType"])
       (rule loopInv_start, rule listStep_inv)
  with st have inv: "loopInv start ListType (cs, cur, k)" by simp
  from st have "chunkListByItems block start config = cs @ [newChunk cur k ListType High]
              \<or> chunkListByItems block start config = cs"
    by (simp add: chunkListByItems_def)
  with loopInv_final [OF inv] show ?thesis by auto
qed

lemma blockChunksOk_merge:
  assumes "blockChunksOk start type chunks" and "chunks \<noteq> []"
  shows "blockChunksOk start type
           (butlast chunks @ [\<lparr>content = text,
              metadata = (metadata (last chunks))\<lparr>originalLength := length text\<rparr>\<rparr>])"
proof -
  from assms(2) obtain cs c where c: "chunks = cs @ [c]"
    by (cases chunks rule: rev_cases) auto
  with assms(1) show ?thesis
    by (auto simp: blockChunksOk_def indexedFrom_snoc fresh_def)
qed

text \<open>\<open>chunkTextBySentences\<close> on the state its loop ends in.\<close>

lemma chunkTextBySentences_final:
  assumes "foldl (sentenceStep config block) ([], [], start)
             (if matchSentences (blockText block) = [] then [blockText block]
              else matchSentences (blockText block)) = (cs, cur, k)"
  shows "chunkTextBySentences block start config =
     (if cur \<noteq> [] \<and> length cur \<ge> minChunkSize config
      then cs @ [newChunk cur k (blockType block)
                   (if blockConfidence block > 7 / 10 then High else Medium)]
      else if cur \<noteq> [] \<and> length cs > 0
      then butlast cs @
           [\<lparr>content = content (last cs) @ [32] @ cur,
             metadata = (metadata (last cs))\<lparr>originalLength := length (content (last cs) @ [32] @ cur)\<rparr>\<rparr>]
      else if cur \<noteq> [] then cs @ [newChunk cur k (blockType block) Low]
      else cs)"
  unfolding chunkTextBySentences_def Let_def assms prod.case ..

lemma chunkTextBySentences_ok:
  "blockChunksOk start (blockType block) (chunkTextBySentences block start config)"
proof -
  let ?ss = "if matchSentences (blockText block) = [] then [blockText block]
             else matchSentences (blockText block)"
  let ?t = "blockType block"
  obtain cs cur k where st: "foldl (sentenceStep config block) ([], [], start) ?ss = (cs, cur, k)"
    by (cases "foldl (sentenceStep config block) ([], [], start) ?ss") auto
  have "loopInv start ?t (foldl (sentenceStep config block) ([], [], start) ?ss)"
    by (rule foldl_invariant [where P = "loopInv start ?t"])
       (rule loopInv_start, rule sentenceStep_inv)
  with st have inv: "loopInv start ?t (cs, cur, k)" by simp
  note fin = loopInv_final [OF inv]
  have m: "cs \<noteq> [] \<Longrightarrow> blockChunksOk start ?t
           (butlast cs @ [\<lparr>content = content (last cs) @ [32] @ cur,
              metadata = (metadata (last cs))\<lparr>originalLength := length (content (last cs) @ [32] @ cur)\<rparr>\<rparr>])"
    using fin(1) by (rule blockChunksOk_merge)
  show ?thesis
  proof (cases "cur \<noteq> [] \<and> length cur \<ge> minChunkSize config")
    case True
    then have "chunkTextBySentences block start config =
        cs @ [newChunk cur k ?t (if blockConfidence block > 7 / 10 then High else Medium)]"
      by (simp add: chunkTextBySentences_final [OF st])
    with fin(2) show ?thesis by simp
  next
    case notBig: False
    show ?thesis
    proof (cases "cur \<noteq> [] \<and> length cs > 0")
      case True
      with notBig have "chunkTextBySentences block start config =
          butlast cs @ [\<lparr>content = content (last cs) @ [32] @ cur,
              metadata = (metadata (last cs))\<lparr>originalLength := length (content (last cs) @ [32] @ cur)\<rparr>\<rparr>]"
        by (simp add: chunkTextBySentences_final [OF st])
      with m True show ?thesis by simp
    next
      case False
      show ?thesis
      proof (cases "cur = []")
        case True
        then have "chunkTextBySentences block start config = cs"
          by (simp add: chunkTextBySentences_final [OF st])
        with fin(1) show ?thesis by simp
      next
        case notEmpty: False
        with False have "cs = []" by simp
        with notEmpty notBig have "chunkTextBySentences block start config =
            cs @ [newChunk cur k ?t Low]"
          by (simp add: chunkTextBySentences_final [OF st])
        with fin(2) show ?thesis by simp
      qed
    qed
  qed
qed

lemma chunkBlock_ok:
  assumes "chunkBlock block start config = Inr chunks"
  shows "blockChunksOk start (blockType block) chunks"
proof (cases "length (blockText block) \<le> (if blockType block = TableType then tableMaxSize config else maxChunkSize config)")
  case True
  with assms obtain conf where "chunks = [newChunk (blockText block) start (blockType block) conf]"
    by (auto simp: chunkBlock_def Let_def)
  then show ?thesis
    by (simp add: blockChunksOk_def indexedFrom_def fresh_newChunk index_newChunk type_newChunk)
next
  case False
  show ?thesis
  proof (cases "blockType block = TableType")
    case True
    with False assms have "chunkTableByRows block start config = Inr chunks"
      by (simp add: chunkBlock_def)
    with True show ?thesis by (simp add: chunkTableByRows_ok)
  next
    case notTable: False
    show ?thesis
    proof (cases "blockType block = ListType")
      case True
      with False notTable assms have "chunks = chunkListByItems block start config"
        by (simp add: chunkBlock_def)
      with True chunkListByItems_ok [of start block config] show ?thesis by simp
    next
      case notList: False
      with False notTable assms have "chunks = chunkTextBySentences block start config"
        by (simp add: chunkBlock_def)
      with chunkTextBySentences_ok [of start block config] show ?thesis by simp
    qed
  qed
qed

section \<open>Chunk numbers and overlap metadata\<close>

text \<open>All chunks of a text before the overlap: numbered from 0, each as made.\<close>

lemma chunkBlocks_ok:
  assumes "chunkBlocks config page blocks acc (length acc) = Inr all"
    and "indexedFrom 0 acc" and "\<forall>c \<in> set acc. fresh c"
  shows "indexedFrom 0 all \<and> (\<forall>c \<in> set all. fresh c)"
  using assms
proof (induction blocks arbitrary: acc)
  case Nil
  then show ?case by simp
next
  case (Cons block blocks)
  from Cons.prems(1) obtain bcs where b: "chunkBlock block (length acc) config = Inr bcs"
    by (auto split: sum.splits)
  let ?bcs = "if page \<noteq> None
              then map (\<lambda>chunk. chunk\<lparr>metadata := (metadata chunk)\<lparr>pageNumber := page\<rparr>\<rparr>) bcs else bcs"
  from chunkBlock_ok [OF b] have ok: "indexedFrom (length acc) bcs" "\<forall>c \<in> set bcs. fresh c"
    by (simp_all add: blockChunksOk_def)
  then have ok': "indexedFrom (length acc) ?bcs" "\<forall>c \<in> set ?bcs. fresh c"
    by (auto simp: indexedFrom_def fresh_def comp_def)
  have len: "length (acc @ ?bcs) = length acc + length bcs" by simp
  from Cons.prems(1) b have "chunkBlocks config page blocks (acc @ ?bcs) (length (acc @ ?bcs)) = Inr all"
    by (simp add: Let_def)
  moreover from Cons.prems(2) ok'(1) have "indexedFrom 0 (acc @ ?bcs)"
    by (intro indexedFrom_append) simp_all
  moreover from Cons.prems(3) ok'(2) have "\<forall>c \<in> set (acc @ ?bcs). fresh c" by auto
  ultimately show ?case by (rule Cons.IH)
qed

lemma allChunksOf_ok:
  assumes "allChunksOf toUpperCase text page config = Inr all"
  shows "indexedFrom 0 all" and "\<forall>c \<in> set all. fresh c"
  using chunkBlocks_ok [of config page _ "[]" all] assms
  by (simp_all add: allChunksOf_def indexedFrom_Nil)

text \<open>\<open>semanticChunk\<close> is the overlap and the size filter on these chunks.\<close>

lemma semanticChunk_allChunksOf:
  "semanticChunk toUpperCase text page config =
     (case allChunksOf toUpperCase text page config of
        Inl e \<Rightarrow> Inl e
      | Inr all \<Rightarrow>
          Inr (filter (\<lambda>chunk. length (trim (content chunk)) \<ge> minChunkSize config)
                 (addOverlap all (overlapSize config))))"
proof (cases "segmentIntoBlocks toUpperCase (preprocessText text chunkerOptions) = []")
  case True
  then show ?thesis by (simp add: semanticChunk_def allChunksOf_def addOverlap_def)
next
  case False
  then show ?thesis by (simp add: semanticChunk_def allChunksOf_def Let_def split: sum.splits)
qed


lemma addOverlap_index:
  "i < length chunks \<Longrightarrow>
     chunkIndex (metadata (addOverlap chunks overlap ! i)) = chunkIndex (metadata (chunks ! i))"
  by (simp add: addOverlap_def Let_def)

lemma addOverlap_indexedFrom: "indexedFrom k chunks \<Longrightarrow> indexedFrom k (addOverlap chunks overlap)"
proof -
  assume a: "indexedFrom k chunks"
  have "map (\<lambda>c. chunkIndex (metadata c)) (addOverlap chunks overlap)
          = map (\<lambda>c. chunkIndex (metadata c)) chunks"
    by (rule nth_equalityI) (simp_all add: length_addOverlap addOverlap_index)
  with a show ?thesis by (simp add: indexedFrom_def length_addOverlap)
qed

lemma indexedFrom_sorted: "indexedFrom k chunks \<Longrightarrow> sorted_wrt (\<lambda>a b. chunkIndex (metadata a) < chunkIndex (metadata b)) chunks"
proof -
  assume "indexedFrom k chunks"
  then have "sorted_wrt (<) (map (\<lambda>c. chunkIndex (metadata c)) chunks)"
    by (simp add: indexedFrom_def)
  then show ?thesis by (simp add: sorted_wrt_map)
qed

lemma filter_keeps_all:
  assumes "length (filter P xs) = length xs"
  shows "filter P xs = xs"
proof -
  have "length (filter P xs) + length (filter (\<lambda>x. \<not> P x) xs) = length xs"
    by (rule sum_length_filter_compl)
  with assms have "filter (\<lambda>x. \<not> P x) xs = []" by simp
  then have "\<forall>x \<in> set xs. P x" by (simp add: filter_empty_conv)
  then show ?thesis by simp
qed

text \<open>
  Claim C1, amended.  The chunks of a text are numbered contiguously from 0 before the
  overlap is added and the small chunks are filtered out; \<open>semanticChunk\<close> returns those
  that pass the filter, each with the number it had.  So the indices of the returned list
  are strictly increasing, and when the filter drops no chunk they are \<open>0, 1, 2, \<dots>\<close>:
  contiguous, starting at the base index 0.
\<close>

theorem semanticChunk_indices_increase:
  assumes "semanticChunk toUpperCase text page config = Inr chunks"
  shows "\<exists>all. allChunksOf toUpperCase text page config = Inr all
           \<and> (\<forall>i < length all. chunkIndex (metadata (all ! i)) = i)
           \<and> chunks = filter (\<lambda>chunk. length (trim (content chunk)) \<ge> minChunkSize config)
                        (addOverlap all (overlapSize config))
           \<and> (\<forall>i j. i < j \<and> j < length chunks \<longrightarrow>
                  chunkIndex (metadata (chunks ! i)) < chunkIndex (metadata (chunks ! j)))
           \<and> (length chunks = length all \<longrightarrow>
                  (\<forall>i < length chunks. chunkIndex (metadata (chunks ! i)) = i))"
proof -
  from assms obtain all where all: "allChunksOf toUpperCase text page config = Inr all"
    and chunks: "chunks = filter (\<lambda>chunk. length (trim (content chunk)) \<ge> minChunkSize config)
                   (addOverlap all (overlapSize config))"
    by (auto simp: semanticChunk_allChunksOf split: sum.splits)
  from allChunksOf_ok(1) [OF all] have ix: "indexedFrom 0 all" .
  then have numbered: "\<forall>i < length all. chunkIndex (metadata (all ! i)) = i"
    by (simp add: indexedFrom_nth)
  from ix have "sorted_wrt (\<lambda>a b. chunkIndex (metadata a) < chunkIndex (metadata b)) chunks"
    unfolding chunks by (intro sorted_wrt_filter indexedFrom_sorted addOverlap_indexedFrom)
  then have increasing: "\<forall>i j. i < j \<and> j < length chunks \<longrightarrow>
                  chunkIndex (metadata (chunks ! i)) < chunkIndex (metadata (chunks ! j))"
    by (simp add: sorted_wrt_iff_nth_less)
  have contiguous: "length chunks = length all \<longrightarrow>
                  (\<forall>i < length chunks. chunkIndex (metadata (chunks ! i)) = i)"
  proof (intro impI allI)
    fix i
    assume len: "length chunks = length all" and i: "i < length chunks"
    from len have "length chunks = length (addOverlap all (overlapSize config))"
      by (simp add: length_addOverlap)
    then have "chunks = addOverlap all (overlapSize config)"
      unfolding chunks by (rule filter_keeps_all)
    with i len numbered show "chunkIndex (metadata (chunks ! i)) = i"
      by (simp add: addOverlap_index)
  qed
  from all numbered chunks increasing contiguous show ?thesis by blast
qed

text \<open>
  Claim C10, amended.  For every chunk \<open>semanticChunk\<close> returns, \<open>hasOverlap\<close> is false
  exactly when the length of the content is \<open>originalLength\<close>.  When \<open>hasOverlap\<close> is true,
  the chunk has a number \<open>i > 0\<close>, and its content is the last \<open>overlapSize\<close> characters of
  the content of chunk \<open>i - 1\<close> of the sequence the chunker built before the overlap was
  added and the small chunks were filtered out, two newlines, and the content of chunk
  \<open>i\<close> of that sequence, whose length is \<open>originalLength\<close>.  Chunk \<open>i - 1\<close> of that sequence
  need not be in the list returned.
\<close>

theorem semanticChunk_overlap_metadata:
  assumes "semanticChunk toUpperCase text page config = Inr chunks" and "c \<in> set chunks"
  shows "(\<not> hasOverlap (metadata c) \<longleftrightarrow> length (content c) = originalLength (metadata c))
       \<and> (hasOverlap (metadata c) \<longrightarrow>
            (\<exists>all i. allChunksOf toUpperCase text page config = Inr all
               \<and> i = chunkIndex (metadata c) \<and> 0 < i \<and> i < length all
               \<and> content c = sliceLast (overlapSize config) (content (all ! (i - 1)))
                                 @ [10, 10] @ content (all ! i)
               \<and> length (content (all ! i)) = originalLength (metadata c)))"
proof -
  let ?n = "overlapSize config"
  from assms(1) obtain all where all: "allChunksOf toUpperCase text page config = Inr all"
    and chunks: "chunks = filter (\<lambda>chunk. length (trim (content chunk)) \<ge> minChunkSize config)
                   (addOverlap all ?n)"
    by (auto simp: semanticChunk_allChunksOf split: sum.splits)
  note ok = allChunksOf_ok [OF all]
  from assms(2) chunks have "c \<in> set (addOverlap all ?n)" by simp
  then obtain i where i: "i < length all" and c: "c = addOverlap all ?n ! i"
    by (auto simp: in_set_conv_nth length_addOverlap)
  from ok(2) i have fr: "fresh (all ! i)" by simp
  from ok(1) i have "chunkIndex (metadata (all ! i)) = i" by (simp add: indexedFrom_nth)
  with i have ci: "chunkIndex (metadata c) = i" by (simp add: c addOverlap_index)
  show ?thesis
  proof (cases "length all \<le> 1 \<or> ?n = 0")
    case True
    then have "c = all ! i" by (auto simp: c addOverlap_def)
    with fr show ?thesis by (simp add: fresh_def)
  next
    case False
    then have big: "1 < length all" "0 < ?n" by simp_all
    let ?ov = "sliceLast ?n (content (all ! (i - 1)))"
    show ?thesis
    proof (cases "i > 0 \<and> \<not> startsWith (content (all ! i)) (take 50 ?ov)")
      case True
      with i big have "c = \<lparr>content = ?ov @ [10, 10] @ content (all ! i),
                            metadata = (metadata (all ! i))\<lparr>hasOverlap := True\<rparr>\<rparr>"
        by (simp add: c addOverlap_nth Let_def)
      with fr True i all ci show ?thesis by (auto simp: fresh_def)
    next
      case False
      with i big have "c = \<lparr>content = content (all ! i),
                             metadata = (metadata (all ! i))\<lparr>hasOverlap := False\<rparr>\<rparr>"
        by (auto simp: c addOverlap_nth Let_def)
      with fr show ?thesis by (simp add: fresh_def)
    qed
  qed
qed

section \<open>No exception, and nothing from white space\<close>

text \<open>A table block has a second line, so \<open>chunkTableByRows\<close> never reaches for a line
  that is not there.\<close>

definition tableOk :: "ContentBlock \<Rightarrow> bool" where
  "tableOk block \<longleftrightarrow> blockType block = TableType \<longrightarrow> 2 \<le> length (splitLines (blockText block))"

lemma detectTable_lines:
  assumes "fst (detectTable text)"
  shows "2 \<le> length (splitLines text)"
proof (cases "length (nonBlankLines text) < 2")
  case True
  then have "detectTable text = (False, 0)" by (simp add: detectTable_def)
  with assms show ?thesis by simp
next
  case False
  moreover have "length (nonBlankLines text) \<le> length (splitLines text)"
    by (simp add: nonBlankLines_def)
  ultimately show ?thesis by simp
qed

lemma analyzeContentBlock_tableOk: "tableOk (analyzeContentBlock toUpperCase text s e)"
proof (cases "fst (detectTable text)")
  case True
  then have "2 \<le> length (splitLines text)" by (rule detectTable_lines)
  then show ?thesis by (simp add: analyzeContentBlock_def tableOk_def Let_def)
next
  case False
  then show ?thesis by (simp add: analyzeContentBlock_def tableOk_def Let_def)
qed

lemma segmentStep_tableOk:
  "list_all tableOk (fst s) \<Longrightarrow> list_all tableOk (fst (segmentStep toUpperCase s paragraph))"
  by (cases s) (simp add: segmentStep_def Let_def analyzeContentBlock_tableOk)

lemma segmentIntoBlocks_tableOk: "list_all tableOk (segmentIntoBlocks toUpperCase text)"
  unfolding segmentIntoBlocks_def
  by (rule foldl_invariant [where P = "\<lambda>s. list_all tableOk (fst s)"])
     (simp, rule segmentStep_tableOk)

lemma chunkTableByRows_total:
  assumes "2 \<le> length (splitLines (blockText block))"
  shows "\<exists>chunks. chunkTableByRows block i config = Inr chunks"
proof -
  from assms obtain l0 l1 ls where "splitLines (blockText block) = l0 # l1 # ls"
    by (cases "splitLines (blockText block)"; cases "tl (splitLines (blockText block))") auto
  then obtain hs where "tableHeaderLines (splitLines (blockText block)) = Inr hs"
    by (cases "strIncludes l1 45 \<or> strIncludes l1 61") (simp_all add: tableHeaderLines_def)
  then show ?thesis
    by (simp add: chunkTableByRows_def Let_def split: prod.splits)
qed

lemma chunkBlock_total:
  assumes "tableOk block"
  shows "\<exists>chunks. chunkBlock block i config = Inr chunks"
proof (cases "blockType block = TableType")
  case True
  with assms have "2 \<le> length (splitLines (blockText block))" by (simp add: tableOk_def)
  from chunkTableByRows_total [OF this, of i config] True show ?thesis
    by (auto simp: chunkBlock_def)
next
  case False
  then show ?thesis by (simp add: chunkBlock_def)
qed

lemma chunkBlocks_total:
  "list_all tableOk blocks \<Longrightarrow> \<exists>all. chunkBlocks config page blocks acc i = Inr all"
proof (induction blocks arbitrary: acc i)
  case Nil
  show ?case by simp
next
  case (Cons block blocks)
  from Cons.prems have "tableOk block" by simp
  from chunkBlock_total [OF this, of i config] obtain bcs where "chunkBlock block i config = Inr bcs" ..
  moreover from Cons.prems have "list_all tableOk blocks" by simp
  ultimately show ?case using Cons.IH by (simp add: Let_def)
qed

lemma allChunksOf_total: "\<exists>all. allChunksOf toUpperCase text page config = Inr all"
  unfolding allChunksOf_def by (rule chunkBlocks_total) (rule segmentIntoBlocks_tableOk)

lemma semanticChunk_total: "\<exists>chunks. semanticChunk toUpperCase text page config = Inr chunks"
proof -
  from allChunksOf_total obtain all where "allChunksOf toUpperCase text page config = Inr all" ..
  then show ?thesis by (simp add: semanticChunk_allChunksOf)
qed

text \<open>White space stays white space through the preprocessor, and is trimmed away.\<close>

definition blank :: "jstring \<Rightarrow> bool" where
  "blank s \<longleftrightarrow> (\<forall>c \<in> set s. isSpace c)"

lemma blank_Nil: "blank []"
  by (simp add: blank_def)

lemma blank_Cons: "blank (c # cs) \<longleftrightarrow> isSpace c \<and> blank cs"
  by (simp add: blank_def)

lemma blank_subset: "set t \<subseteq> set s \<Longrightarrow> blank s \<Longrightarrow> blank t"
  by (auto simp: blank_def)

lemma isSpace_newline: "isSpace 10" and isSpace_blank: "isSpace 32"
  by (simp_all add: isSpace_def)

lemma set_replaceCRLF: "set (replaceCRLF s) \<subseteq> set s"
  by (induction s rule: replaceCRLF.induct) auto

lemma set_collapseRuns: "set (collapseRuns d s) \<subseteq> set s"
  by (induction d s rule: collapseRuns.induct) auto

lemma set_capNewlines: "set (capNewlines s) \<subseteq> set s"
  by (induction s rule: capNewlines.induct) auto

lemma blank_replaceCR: "blank s \<Longrightarrow> blank (replaceCR s)"
  by (auto simp: blank_def replaceCR_def isSpace_newline)

lemma blank_normalizeWhitespace: "blank s \<Longrightarrow> blank (normalizeWhitespace s)"
  unfolding normalizeWhitespace_def
  by (intro blank_subset [OF set_capNewlines] blank_subset [OF set_collapseRuns]
        blank_replaceCR blank_subset [OF set_replaceCRLF])

lemma hyphenBreak_set: "hyphenBreak cs = Some (w, rest) \<Longrightarrow> w \<in> set cs \<and> set rest \<subseteq> set cs"
proof -
  assume a: "hyphenBreak cs = Some (w, rest)"
  then obtain h sp r where cs: "cs = h # sp # r" and d: "dropWhile isSpace r = w # rest"
    by (auto simp: hyphenBreak_def split: list.splits if_splits)
  have "set (dropWhile isSpace r) \<subseteq> set r" by (rule set_dropWhileD [THEN subsetI])
  with d cs show ?thesis by auto
qed

lemma set_joinHyphenated: "set (joinHyphenated s) \<subseteq> set s"
proof (induction s rule: joinHyphenated.induct)
  case 1
  show ?case by simp
next
  case (2 c cs)
  show ?case
  proof (cases "if isWord c then hyphenBreak cs else None")
    case None
    from 2(1) [OF None] None show ?thesis by auto
  next
    case (Some p)
    obtain w rest where p: "p = (w, rest)" by (cases p)
    from Some p have "hyphenBreak cs = Some (w, rest)" by (simp split: if_splits)
    from hyphenBreak_set [OF this] 2(2) [OF Some [unfolded p] refl] Some p
    show ?thesis by auto
  qed
qed

lemma set_splitCamel: "set (splitCamel s) \<subseteq> insert 32 (set s)"
  by (induction s rule: splitCamel.induct) auto

lemma blank_removePDFArtifacts: "blank s \<Longrightarrow> blank (removePDFArtifacts s)"
proof -
  assume b: "blank s"
  let ?a = "filter (\<lambda>c. c \<noteq> 173) (filter (\<lambda>c. \<not> ((8203 \<le> c \<and> c \<le> 8205) \<or> c = 65279)) s)"
  from b have "blank ?a" by (auto simp: blank_def)
  then have "blank (joinHyphenated ?a)" by (rule blank_subset [OF set_joinHyphenated])
  then have "blank (splitCamel (joinHyphenated ?a))"
    using set_splitCamel [of "joinHyphenated ?a"] by (auto simp: blank_def isSpace_blank)
  then show ?thesis
    by (auto simp: removePDFArtifacts_def Let_def blank_def isSpace_newline split: if_splits)
qed

lemma set_splitLines: "l \<in> set (splitLines s) \<Longrightarrow> set l \<subseteq> set s"
proof (induction s arbitrary: l)
  case Nil
  then show ?case by simp
next
  case (Cons c cs)
  obtain m ms where sp: "splitLines cs = m # ms"
    using splitLines_not_empty [of cs] by (cases "splitLines cs") auto
  show ?case
  proof (cases "c = 10")
    case True
    with Cons show ?thesis by auto
  next
    case False
    with Cons.prems sp have "l = c # m \<or> l \<in> set ms" by simp
    with Cons.IH [of m] Cons.IH [of l] sp show ?thesis by auto
  qed
qed

lemma set_joinLines: "set (joinLines ls) \<subseteq> insert 10 (\<Union>l \<in> set ls. set l)"
  by (induction ls rule: joinLines.induct) auto

lemma blank_filtered_lines: "blank s \<Longrightarrow> blank (joinLines (filter P (splitLines s)))"
proof -
  assume b: "blank s"
  have "set (joinLines (filter P (splitLines s))) \<subseteq> insert 10 (set s)"
    using set_joinLines [of "filter P (splitLines s)"] set_splitLines [of _ s] by auto
  with b show ?thesis by (auto simp: blank_def isSpace_newline)
qed

lemma blank_removePageNumbers: "blank s \<Longrightarrow> blank (removePageNumbers s)"
  unfolding removePageNumbers_def by (rule blank_filtered_lines)

lemma blank_removeRepeatedSections: "blank s \<Longrightarrow> blank (removeRepeatedSections s)"
  unfolding removeRepeatedSections_filter by (rule blank_filtered_lines)

lemma markerMatch_blank: "blank s \<Longrightarrow> markerMatch k s = None"
proof -
  assume "blank s"
  then have "dropWhile isSpace s = []" by (simp add: blank_def)
  then show ?thesis by (cases k) (simp_all add: Let_def del: dropWhile_eq_Nil_conv)
qed

lemma replaceMarkers_blank: "blank s \<Longrightarrow> replaceMarkers k b s = s"
  by (induction s arbitrary: b) (simp_all add: blank_Cons markerMatch_blank)

lemma blank_normalizeLists: "blank s \<Longrightarrow> normalizeLists s = s"
  by (simp add: normalizeLists_def replaceMarkers_blank)

lemma trim_blank: "blank s \<Longrightarrow> trim s = []"
proof -
  assume "blank s"
  then have "dropWhile isSpace s = []" by (simp add: blank_def)
  then show ?thesis by (simp add: trim_def del: dropWhile_eq_Nil_conv)
qed

lemma preprocessText_blank: "blank s \<Longrightarrow> preprocessText s chunkerOptions = []"
proof -
  assume "blank s"
  then have "blank (removeRepeatedSections (removePageNumbers (removePDFArtifacts (normalizeWhitespace s))))"
    by (intro blank_removeRepeatedSections blank_removePageNumbers blank_removePDFArtifacts
          blank_normalizeWhitespace)
  then have "blank (normalizeWhitespace (normalizeLists
      (removeRepeatedSections (removePageNumbers (removePDFArtifacts (normalizeWhitespace s))))))"
    by (simp add: blank_normalizeLists blank_normalizeWhitespace)
  then show ?thesis
    by (simp add: preprocessText_def chunkerOptions_def trim_blank)
qed

lemma segmentIntoBlocks_Nil: "segmentIntoBlocks toUpperCase [] = []"
  by (simp add: segmentIntoBlocks_def segmentStep_def trim_def)

text \<open>
  Claim C3.  For every input string and every configuration, \<open>semanticChunk\<close> returns a
  chunk list and raises no exception (every function of the model is total, so it
  terminates); the empty string and every string of white space give the empty list.
\<close>

theorem semanticChunk_never_throws:
  "(\<exists>chunks. semanticChunk toUpperCase text page config = Inr chunks)
   \<and> (list_all isSpace text \<longrightarrow> semanticChunk toUpperCase text page config = Inr [])"
proof
  show "\<exists>chunks. semanticChunk toUpperCase text page config = Inr chunks"
    by (rule semanticChunk_total)
  show "list_all isSpace text \<longrightarrow> semanticChunk toUpperCase text page config = Inr []"
  proof
    assume "list_all isSpace text"
    then have "blank text" by (simp add: blank_def list_all_iff)
    then have "preprocessText text chunkerOptions = []" by (rule preprocessText_blank)
    then show "semanticChunk toUpperCase text page config = Inr []"
      by (simp add: semanticChunk_def segmentIntoBlocks_Nil)
  qed
qed

section \<open>Chunk sizes\<close>

text \<open>The units a splitter never divides fit the budget: a data row together with the
  table header, a list line, a trimmed sentence together with the minimum a chunk must
  reach before it is closed.\<close>

definition unitsFit :: "ChunkingConfig \<Rightarrow> ContentBlock \<Rightarrow> bool" where
  "unitsFit config block =
     (let lines = splitLines (blockText block);
          matches = matchSentences (blockText block);
          sentences = (if matches = [] then [blockText block] else matches)
      in if blockType block = TableType then
           (case tableHeaderLines lines of
              Inl e \<Rightarrow> True
            | Inr headerLines \<Rightarrow>
                list_all (\<lambda>line. length (joinLines headerLines) + 1 + length line \<le> tableMaxSize config)
                  (drop (length headerLines) lines))
         else if blockType block = ListType then
           list_all (\<lambda>line. length line \<le> maxChunkSize config) lines
         else
           list_all (\<lambda>sentence. length (trim sentence) + minChunkSize config \<le> maxChunkSize config)
             sentences)"

text \<open>The size a chunk of a given type stays within before the overlap is added, when the
  units fit: the budget of the type, and for text and headings the budget and the final
  fragment that may be merged in.\<close>

definition sizeBound :: "ChunkingConfig \<Rightarrow> ContentType \<Rightarrow> nat" where
  "sizeBound config type =
     (if type = TableType then tableMaxSize config
      else if type = ListType then maxChunkSize config
      else maxChunkSize config + minChunkSize config)"

definition sized :: "nat \<Rightarrow> Chunk list \<Rightarrow> bool" where
  "sized B chunks \<longleftrightarrow> (\<forall>c \<in> set chunks. length (content c) \<le> B)"

lemma sized_Nil: "sized B []"
  by (simp add: sized_def)

lemma sized_snoc: "sized B (chunks @ [c]) \<longleftrightarrow> sized B chunks \<and> length (content c) \<le> B"
  by (auto simp: sized_def)

lemma sized_mono: "sized B chunks \<Longrightarrow> B \<le> B' \<Longrightarrow> sized B' chunks"
  by (auto simp: sized_def)

lemma content_newChunk: "content (newChunk text' i type conf) = text'"
  by (simp add: newChunk_def)

subsection \<open>Tables\<close>

definition tableSizeInv :: "nat \<Rightarrow> jstring \<Rightarrow> Chunk list \<times> jstring \<times> nat \<Rightarrow> bool" where
  "tableSizeInv B header state \<longleftrightarrow>
     (case state of (chunks, cur, i) \<Rightarrow> sized B chunks \<and> (cur = header \<or> length cur \<le> B))"

lemma tableStep_result:
  "tableStep config header (chunks, cur, i) line =
     (if length (cur @ [10] @ line) > tableMaxSize config \<and> cur \<noteq> header
      then (chunks @ [newChunk cur i TableType High], header @ [10] @ line, i + 1)
      else (chunks, cur @ [10] @ line, i))"
  by (simp add: tableStep_def Let_def)

lemma tableStep_size:
  assumes "tableSizeInv (tableMaxSize config) header s"
    and "length header + 1 + length line \<le> tableMaxSize config"
  shows "tableSizeInv (tableMaxSize config) header (tableStep config header s line)"
proof -
  obtain chunks cur i where s: "s = (chunks, cur, i)" by (cases s)
  show ?thesis
  proof (cases "length (cur @ [10] @ line) > tableMaxSize config \<and> cur \<noteq> header")
    case True
    with assms show ?thesis
      by (simp add: s tableStep_result tableSizeInv_def sized_snoc content_newChunk)
  next
    case False
    with assms show ?thesis
      by (auto simp: s tableStep_result tableSizeInv_def)
  qed
qed

lemma chunkTableByRows_size:
  assumes "chunkTableByRows block start config = Inr chunks"
    and "unitsFit config block" and "blockType block = TableType"
  shows "sized (tableMaxSize config) chunks"
proof -
  let ?B = "tableMaxSize config"
  from assms(1) obtain hs where hs: "tableHeaderLines (splitLines (blockText block)) = Inr hs"
    by (auto simp: chunkTableByRows_def Let_def split: sum.splits)
  let ?h = "joinLines hs"
  let ?ls = "drop (length hs) (splitLines (blockText block))"
  from assms(2,3) hs have fit: "\<forall>line \<in> set ?ls. length ?h + 1 + length line \<le> ?B"
    by (simp add: unitsFit_def Let_def list_all_iff)
  obtain cs cur k where st: "foldl (tableStep config ?h) ([], ?h, start) ?ls = (cs, cur, k)"
    by (cases "foldl (tableStep config ?h) ([], ?h, start) ?ls") auto
  have "tableSizeInv ?B ?h (foldl (tableStep config ?h) ([], ?h, start) ?ls)"
  proof (rule foldl_invariant [where P = "tableSizeInv ?B ?h"])
    show "tableSizeInv ?B ?h ([], ?h, start)" by (simp add: tableSizeInv_def sized_Nil)
  next
    fix s line assume "tableSizeInv ?B ?h s" "line \<in> set ?ls"
    with fit show "tableSizeInv ?B ?h (tableStep config ?h s line)"
      by (intro tableStep_size) simp_all
  qed
  with st have inv: "sized ?B cs" "cur = ?h \<or> length cur \<le> ?B"
    by (simp_all add: tableSizeInv_def)
  from assms(1) hs st have "(length ?h < length cur \<and> chunks = cs @ [newChunk cur k TableType High])
      \<or> chunks = cs"
    by (auto simp: chunkTableByRows_def Let_def split: if_splits)
  with inv show ?thesis by (auto simp: sized_snoc content_newChunk)
qed

subsection \<open>Lists\<close>

definition sizeInv :: "nat \<Rightarrow> Chunk list \<times> jstring \<times> nat \<Rightarrow> bool" where
  "sizeInv B state \<longleftrightarrow> (case state of (chunks, cur, i) \<Rightarrow> sized B chunks \<and> length cur \<le> B)"

text \<open>The four ways the loop body goes: a blank line is skipped, the first line starts
  the chunk, a line that fits is appended, a line that does not closes the chunk.\<close>

lemma listStep_skip: "trim line = [] \<Longrightarrow> listStep config (chunks, cur, i) line = (chunks, cur, i)"
  by (simp add: listStep_result)

lemma listStep_first:
  "trim line \<noteq> [] \<Longrightarrow> listStep config (chunks, [], i) line = (chunks, line, i)"
  by (simp add: listStep_result)

lemma listStep_grow:
  "trim line \<noteq> [] \<Longrightarrow> cur \<noteq> [] \<Longrightarrow> length cur + 1 + length line \<le> maxChunkSize config \<Longrightarrow>
     listStep config (chunks, cur, i) line = (chunks, cur @ [10] @ line, i)"
  by (simp add: listStep_result)

lemma listStep_push:
  "trim line \<noteq> [] \<Longrightarrow> cur \<noteq> [] \<Longrightarrow> length cur + 1 + length line > maxChunkSize config \<Longrightarrow>
     listStep config (chunks, cur, i) line = (chunks @ [newChunk cur i ListType High], line, Suc i)"
  by (simp add: listStep_result)

lemma listStep_size:
  assumes "sizeInv (maxChunkSize config) s" and "length line \<le> maxChunkSize config"
  shows "sizeInv (maxChunkSize config) (listStep config s line)"
proof -
  obtain chunks cur i where s: "s = (chunks, cur, i)" by (cases s)
  from assms(1) have inv: "sized (maxChunkSize config) chunks" "length cur \<le> maxChunkSize config"
    by (simp_all add: s sizeInv_def)
  consider "trim line = []" | "trim line \<noteq> []" "cur = []"
    | "trim line \<noteq> []" "cur \<noteq> []" "length cur + 1 + length line \<le> maxChunkSize config"
    | "trim line \<noteq> []" "cur \<noteq> []" "length cur + 1 + length line > maxChunkSize config"
    by linarith
  then show ?thesis
  proof cases
    case 1
    with assms(1) show ?thesis by (simp add: s listStep_skip)
  next
    case 2
    with inv assms(2) show ?thesis by (simp add: s listStep_first sizeInv_def)
  next
    case 3
    with inv show ?thesis by (simp add: s listStep_grow sizeInv_def)
  next
    case 4
    with inv assms(2) show ?thesis
      by (simp add: s listStep_push sizeInv_def sized_snoc content_newChunk)
  qed
qed

lemma chunkListByItems_size:
  assumes "unitsFit config block" and "blockType block = ListType"
  shows "sized (maxChunkSize config) (chunkListByItems block start config)"
proof -
  let ?B = "maxChunkSize config"
  let ?ls = "splitLines (blockText block)"
  from assms have fit: "\<forall>line \<in> set ?ls. length line \<le> ?B"
    by (simp add: unitsFit_def Let_def list_all_iff)
  obtain cs cur k where st: "foldl (listStep config) ([], [], start) ?ls = (cs, cur, k)"
    by (cases "foldl (listStep config) ([], [], start) ?ls") auto
  have "sizeInv ?B (foldl (listStep config) ([], [], start) ?ls)"
  proof (rule foldl_invariant [where P = "sizeInv ?B"])
    show "sizeInv ?B ([], [], start)" by (simp add: sizeInv_def sized_Nil)
  next
    fix s line assume "sizeInv ?B s" "line \<in> set ?ls"
    with fit show "sizeInv ?B (listStep config s line)"
      by (intro listStep_size) simp_all
  qed
  with st have inv: "sized ?B cs" "length cur \<le> ?B" by (simp_all add: sizeInv_def)
  from st have "chunkListByItems block start config = cs @ [newChunk cur k ListType High]
              \<or> chunkListByItems block start config = cs"
    by (simp add: chunkListByItems_def)
  with inv show ?thesis by (auto simp: sized_snoc content_newChunk)
qed

subsection \<open>Text and headings\<close>

lemma sentenceStep_skip:
  "trim sentence = [] \<Longrightarrow> sentenceStep config block (chunks, cur, i) sentence = (chunks, cur, i)"
  by (simp add: sentenceStep_def)

lemma sentenceStep_first:
  "trim sentence \<noteq> [] \<Longrightarrow>
     sentenceStep config block (chunks, [], i) sentence =
       (if length (trim sentence) > maxChunkSize config \<and> minChunkSize config = 0
        then (chunks @ [newChunk [] i (blockType block)
                          (if blockConfidence block > 7 / 10 then High else Medium)],
              trim sentence, Suc i)
        else (chunks, trim sentence, i))"
  by (simp add: sentenceStep_def Let_def)

lemma sentenceStep_grow:
  "trim sentence \<noteq> [] \<Longrightarrow> cur \<noteq> [] \<Longrightarrow>
     \<not> (length cur + 1 + length (trim sentence) > maxChunkSize config \<and> length cur \<ge> minChunkSize config) \<Longrightarrow>
     sentenceStep config block (chunks, cur, i) sentence = (chunks, cur @ [32] @ trim sentence, i)"
  by (simp add: sentenceStep_def Let_def)

lemma sentenceStep_push:
  "trim sentence \<noteq> [] \<Longrightarrow> cur \<noteq> [] \<Longrightarrow>
     length cur + 1 + length (trim sentence) > maxChunkSize config \<Longrightarrow> length cur \<ge> minChunkSize config \<Longrightarrow>
     sentenceStep config block (chunks, cur, i) sentence =
       (chunks @ [newChunk cur i (blockType block)
                    (if blockConfidence block > 7 / 10 then High else Medium)],
        trim sentence, Suc i)"
  by (simp add: sentenceStep_def Let_def)

lemma sentenceStep_size:
  assumes "sizeInv (maxChunkSize config) s"
    and "length (trim sentence) + minChunkSize config \<le> maxChunkSize config"
  shows "sizeInv (maxChunkSize config) (sentenceStep config block s sentence)"
proof -
  obtain chunks cur i where s: "s = (chunks, cur, i)" by (cases s)
  from assms(1) have inv: "sized (maxChunkSize config) chunks" "length cur \<le> maxChunkSize config"
    by (simp_all add: s sizeInv_def)
  consider "trim sentence = []" | "trim sentence \<noteq> []" "cur = []"
    | "trim sentence \<noteq> []" "cur \<noteq> []"
      "\<not> (length cur + 1 + length (trim sentence) > maxChunkSize config \<and> length cur \<ge> minChunkSize config)"
    | "trim sentence \<noteq> []" "cur \<noteq> []"
      "length cur + 1 + length (trim sentence) > maxChunkSize config" "length cur \<ge> minChunkSize config"
    by blast
  then show ?thesis
  proof cases
    case 1
    with assms(1) show ?thesis by (simp add: s sentenceStep_skip)
  next
    case 2
    with inv assms(2) show ?thesis
      by (simp add: s sentenceStep_first sizeInv_def sized_snoc content_newChunk)
  next
    case 3
    from 3(3) assms(2) have "length cur + 1 + length (trim sentence) \<le> maxChunkSize config"
      by linarith
    with 3 inv show ?thesis by (simp add: s sentenceStep_grow sizeInv_def)
  next
    case 4
    with inv assms(2) show ?thesis
      by (simp add: s sentenceStep_push sizeInv_def sized_snoc content_newChunk)
  qed
qed

lemma chunkTextBySentences_size:
  assumes "unitsFit config block" and "blockType block \<noteq> TableType" and "blockType block \<noteq> ListType"
  shows "sized (maxChunkSize config + minChunkSize config) (chunkTextBySentences block start config)"
proof -
  let ?B = "maxChunkSize config"
  let ?ss = "if matchSentences (blockText block) = [] then [blockText block]
             else matchSentences (blockText block)"
  from assms have fit: "\<forall>sentence \<in> set ?ss. length (trim sentence) + minChunkSize config \<le> ?B"
    by (simp add: unitsFit_def Let_def list_all_iff)
  obtain cs cur k where st: "foldl (sentenceStep config block) ([], [], start) ?ss = (cs, cur, k)"
    by (cases "foldl (sentenceStep config block) ([], [], start) ?ss") auto
  have "sizeInv ?B (foldl (sentenceStep config block) ([], [], start) ?ss)"
  proof (rule foldl_invariant [where P = "sizeInv ?B"])
    show "sizeInv ?B ([], [], start)" by (simp add: sizeInv_def sized_Nil)
  next
    fix s sentence assume "sizeInv ?B s" "sentence \<in> set ?ss"
    with fit show "sizeInv ?B (sentenceStep config block s sentence)"
      by (intro sentenceStep_size) simp_all
  qed
  with st have inv: "sized ?B cs" "length cur \<le> ?B" by (simp_all add: sizeInv_def)
  from inv(1) have big: "sized (?B + minChunkSize config) cs" by (rule sized_mono) simp
  show ?thesis
  proof (cases "cur \<noteq> [] \<and> length cur \<ge> minChunkSize config")
    case True
    then have "chunkTextBySentences block start config =
        cs @ [newChunk cur k (blockType block) (if blockConfidence block > 7 / 10 then High else Medium)]"
      by (simp add: chunkTextBySentences_final [OF st])
    with big inv(2) show ?thesis by (simp add: sized_snoc content_newChunk)
  next
    case notBig: False
    show ?thesis
    proof (cases "cur = []")
      case True
      then have "chunkTextBySentences block start config = cs"
        by (simp add: chunkTextBySentences_final [OF st])
      with big show ?thesis by simp
    next
      case notEmpty: False
      with notBig have short: "length cur < minChunkSize config" by simp
      show ?thesis
      proof (cases "cs = []")
        case True
        with notEmpty short have "chunkTextBySentences block start config =
            cs @ [newChunk cur k (blockType block) Low]"
          by (simp add: chunkTextBySentences_final [OF st])
        with big inv(2) show ?thesis by (simp add: sized_snoc content_newChunk)
      next
        case False
        with notEmpty short have r: "chunkTextBySentences block start config =
            butlast cs @ [\<lparr>content = content (last cs) @ [32] @ cur,
              metadata = (metadata (last cs))\<lparr>originalLength := length (content (last cs) @ [32] @ cur)\<rparr>\<rparr>]"
          by (simp add: chunkTextBySentences_final [OF st])
        from False inv(1) have "length (content (last cs)) \<le> ?B" by (simp add: sized_def)
        with short have "length (content (last cs) @ [32] @ cur) \<le> ?B + minChunkSize config" by simp
        moreover from big have "sized (?B + minChunkSize config) (butlast cs)"
          by (auto simp: sized_def dest: in_set_butlastD)
        ultimately show ?thesis unfolding r by (simp add: sized_snoc)
      qed
    qed
  qed
qed

subsection \<open>Blocks, and the whole text\<close>

lemma chunkBlock_size:
  assumes "chunkBlock block start config = Inr chunks" and "unitsFit config block"
  shows "sized (sizeBound config (blockType block)) chunks"
proof (cases "length (blockText block) \<le> (if blockType block = TableType then tableMaxSize config else maxChunkSize config)")
  case True
  with assms(1) obtain conf where "chunks = [newChunk (blockText block) start (blockType block) conf]"
    by (auto simp: chunkBlock_def Let_def)
  with True show ?thesis
    by (auto simp: sized_def content_newChunk sizeBound_def split: if_splits)
next
  case False
  show ?thesis
  proof (cases "blockType block = TableType")
    case True
    with False assms(1) have "chunkTableByRows block start config = Inr chunks"
      by (simp add: chunkBlock_def)
    from chunkTableByRows_size [OF this assms(2) True] True show ?thesis
      by (simp add: sizeBound_def)
  next
    case notTable: False
    show ?thesis
    proof (cases "blockType block = ListType")
      case True
      with False notTable assms(1) have "chunks = chunkListByItems block start config"
        by (simp add: chunkBlock_def)
      with chunkListByItems_size [OF assms(2) True, of start] True notTable show ?thesis
        by (simp add: sizeBound_def)
    next
      case notList: False
      with False notTable assms(1) have "chunks = chunkTextBySentences block start config"
        by (simp add: chunkBlock_def)
      with chunkTextBySentences_size [OF assms(2) notTable notList, of start] notTable notList
      show ?thesis by (simp add: sizeBound_def)
    qed
  qed
qed

definition typedSized :: "ChunkingConfig \<Rightarrow> Chunk list \<Rightarrow> bool" where
  "typedSized config chunks \<longleftrightarrow>
     (\<forall>c \<in> set chunks. length (content c) \<le> sizeBound config (contentType (metadata c)))"

lemma chunkBlock_typedSized:
  assumes "chunkBlock block start config = Inr chunks" and "unitsFit config block"
  shows "typedSized config chunks"
  using chunkBlock_size [OF assms] chunkBlock_ok [OF assms(1)]
  by (auto simp: typedSized_def sized_def blockChunksOk_def)

lemma chunkBlocks_typedSized:
  assumes "chunkBlocks config page blocks acc i = Inr all"
    and "list_all (unitsFit config) blocks" and "typedSized config acc"
  shows "typedSized config all"
  using assms
proof (induction blocks arbitrary: acc i)
  case Nil
  then show ?case by simp
next
  case (Cons block blocks)
  from Cons.prems(1) obtain bcs where b: "chunkBlock block i config = Inr bcs"
    by (auto split: sum.splits)
  let ?bcs = "if page \<noteq> None
              then map (\<lambda>chunk. chunk\<lparr>metadata := (metadata chunk)\<lparr>pageNumber := page\<rparr>\<rparr>) bcs else bcs"
  from Cons.prems(2) have "unitsFit config block" by simp
  from chunkBlock_typedSized [OF b this] have "typedSized config ?bcs"
    by (auto simp: typedSized_def)
  with Cons.prems(3) have "typedSized config (acc @ ?bcs)" by (auto simp: typedSized_def)
  moreover from Cons.prems(1) b
  have "chunkBlocks config page blocks (acc @ ?bcs) (i + length ?bcs) = Inr all"
    by (simp add: Let_def)
  moreover from Cons.prems(2) have "list_all (unitsFit config) blocks" by simp
  ultimately show ?case using Cons.IH by blast
qed

text \<open>What the overlap step does to each chunk.\<close>

lemma addOverlap_cases:
  assumes "i < length all"
  shows "addOverlap all n ! i = all ! i
       \<or> addOverlap all n ! i = \<lparr>content = content (all ! i),
              metadata = (metadata (all ! i))\<lparr>hasOverlap := False\<rparr>\<rparr>
       \<or> addOverlap all n ! i = \<lparr>content = sliceLast n (content (all ! (i - 1))) @ [10, 10] @ content (all ! i),
              metadata = (metadata (all ! i))\<lparr>hasOverlap := True\<rparr>\<rparr>"
  using assms by (simp add: addOverlap_def Let_def)

lemma length_sliceLast: "length (sliceLast n s) \<le> n"
  by (simp add: sliceLast_def)

text \<open>
  Claim C4, amended.  Every chunk \<open>semanticChunk\<close> returns is at most \<open>overlapSize + 2\<close>
  characters longer than its \<open>originalLength\<close>.  If in every block of the text the units the
  splitters keep whole fit (for a table each data row with the header and a newline within
  \<open>tableMaxSize\<close>, for a list each line within \<open>maxChunkSize\<close>, for text and headings each
  trimmed sentence within \<open>maxChunkSize - minChunkSize\<close>), then the content of a table chunk
  is at most \<open>tableMaxSize + overlapSize + 2\<close> long, that of a list chunk at most
  \<open>maxChunkSize + overlapSize + 2\<close>, and that of a text or heading chunk at most
  \<open>maxChunkSize + minChunkSize + overlapSize + 2\<close>.
\<close>

theorem semanticChunk_chunk_size:
  assumes "semanticChunk toUpperCase text page config = Inr chunks" and "c \<in> set chunks"
  shows "length (content c) \<le> originalLength (metadata c) + overlapSize config + 2
       \<and> (list_all (unitsFit config) (segmentIntoBlocks toUpperCase (preprocessText text chunkerOptions))
            \<longrightarrow> length (content c)
                  \<le> (if contentType (metadata c) = TableType then tableMaxSize config
                      else if contentType (metadata c) = ListType then maxChunkSize config
                      else maxChunkSize config + minChunkSize config)
                     + overlapSize config + 2)"
proof -
  let ?n = "overlapSize config"
  from assms(1) obtain all where all: "allChunksOf toUpperCase text page config = Inr all"
    and chunks: "chunks = filter (\<lambda>chunk. length (trim (content chunk)) \<ge> minChunkSize config)
                   (addOverlap all ?n)"
    by (auto simp: semanticChunk_allChunksOf split: sum.splits)
  from assms(2) chunks have "c \<in> set (addOverlap all ?n)" by simp
  then obtain i where i: "i < length all" and c: "c = addOverlap all ?n ! i"
    by (auto simp: in_set_conv_nth length_addOverlap)
  from allChunksOf_ok(2) [OF all] i have fr: "fresh (all ! i)" by simp
  note ov = length_sliceLast [of ?n "content (all ! (i - 1))"]
  from addOverlap_cases [OF i, of ?n] fr ov
  have 1: "length (content c) \<le> originalLength (metadata c) + ?n + 2"
    and 2: "length (content c) \<le> length (content (all ! i)) + ?n + 2"
    and 3: "contentType (metadata c) = contentType (metadata (all ! i))"
    unfolding c by (auto simp: fresh_def)
  have "length (content c) \<le> sizeBound config (contentType (metadata c)) + ?n + 2"
    if fit: "list_all (unitsFit config) (segmentIntoBlocks toUpperCase (preprocessText text chunkerOptions))"
  proof -
    from all have "chunkBlocks config page
        (segmentIntoBlocks toUpperCase (preprocessText text chunkerOptions)) [] 0 = Inr all"
      by (simp add: allChunksOf_def)
    from chunkBlocks_typedSized [OF this fit] have "typedSized config all"
      by (simp add: typedSized_def)
    with i have "length (content (all ! i)) \<le> sizeBound config (contentType (metadata (all ! i)))"
      by (simp add: typedSized_def)
    with 2 3 show ?thesis by simp
  qed
  with 1 show ?thesis by (simp add: sizeBound_def)
qed

section \<open>Idempotence of the whitespace normalisation\<close>

text \<open>\<open>normalizeWhitespace\<close> leaves no carriage return, no run of blanks or of tabs, and no
  run of four newlines; on such a text it changes nothing.\<close>

fun hasPair :: "nat \<Rightarrow> jstring \<Rightarrow> bool" where
  "hasPair d (a # b # cs) = ((a = d \<and> b = d) \<or> hasPair d (b # cs))"
| "hasPair d cs = False"

lemma replaceCRLF_id: "13 \<notin> set s \<Longrightarrow> replaceCRLF s = s"
  by (induction s rule: replaceCRLF.induct) auto

lemma replaceCR_id: "13 \<notin> set s \<Longrightarrow> replaceCR s = s"
  by (induction s) (auto simp: replaceCR_def)

lemma collapseRuns_id: "\<not> hasPair d s \<Longrightarrow> collapseRuns d s = s"
  by (induction d s rule: collapseRuns.induct) auto

lemma replaceCR_no_CR: "13 \<notin> set (replaceCR s)"
  by (auto simp: replaceCR_def)

lemma collapseRuns_head: "collapseRuns d (a # cs) = a # tl (collapseRuns d (a # cs))"
  by (induction d "a # cs" arbitrary: a cs rule: collapseRuns.induct) auto

lemma capNewlines_head: "capNewlines (a # cs) = a # tl (capNewlines (a # cs))"
  by (induction "a # cs" arbitrary: a cs rule: capNewlines.induct) auto

lemma collapseRuns_no_pair: "\<not> hasPair d (collapseRuns d s)"
proof (induction d s rule: collapseRuns.induct)
  case (1 d a b cs)
  show ?case
  proof (cases "a = d \<and> b = d")
    case True
    with 1 show ?thesis by simp
  next
    case False
    from 1(2) [OF False] have ih: "\<not> hasPair d (collapseRuns d (b # cs))" .
    obtain r where r: "collapseRuns d (b # cs) = b # r"
      using collapseRuns_head [of d b cs] by blast
    with ih False show ?thesis by auto
  qed
qed simp_all

lemma collapseRuns_keeps_no_pair: "\<not> hasPair e s \<Longrightarrow> \<not> hasPair e (collapseRuns d s)"
proof (induction d s rule: collapseRuns.induct)
  case (1 d a b cs)
  show ?case
  proof (cases "a = d \<and> b = d")
    case True
    with 1 show ?thesis by auto
  next
    case False
    from 1(3) have "\<not> hasPair e (b # cs)" by simp
    from 1(2) [OF False this] have ih: "\<not> hasPair e (collapseRuns d (b # cs))" .
    obtain r where r: "collapseRuns d (b # cs) = b # r"
      using collapseRuns_head [of d b cs] by blast
    with ih False 1(3) show ?thesis by auto
  qed
qed simp_all

lemma capNewlines_keeps_no_pair: "\<not> hasPair e s \<Longrightarrow> \<not> hasPair e (capNewlines s)"
proof (induction s rule: capNewlines.induct)
  case (1 a b c d cs)
  from 1(3) have "\<not> hasPair e (b # c # d # cs)" by simp
  show ?case
  proof (cases "a = 10 \<and> b = 10 \<and> c = 10 \<and> d = 10")
    case True
    from 1(1) [OF True \<open>\<not> hasPair e (b # c # d # cs)\<close>] True show ?thesis by simp
  next
    case False
    from 1(2) [OF False \<open>\<not> hasPair e (b # c # d # cs)\<close>]
    have ih: "\<not> hasPair e (capNewlines (b # c # d # cs))" .
    obtain r where r: "capNewlines (b # c # d # cs) = b # r"
      using capNewlines_head [of b "c # d # cs"] by blast
    with ih False 1(3) show ?thesis by auto
  qed
qed simp_all

lemma capNewlines_keep:
  "\<not> (a = 10 \<and> b = 10 \<and> c = 10 \<and> d = 10) \<Longrightarrow>
     capNewlines (a # b # c # d # cs) = a # capNewlines (b # c # d # cs)"
  by (simp only: capNewlines.simps(1) if_False)

lemma capNewlines_drop: "capNewlines (10 # 10 # 10 # 10 # cs) = capNewlines (10 # 10 # 10 # cs)"
  by simp

lemma capNewlines_take3: "take 3 (capNewlines s) = take 3 s"
proof (induction s rule: capNewlines.induct)
  case (1 a b c d cs)
  show ?case
  proof (cases "a = 10 \<and> b = 10 \<and> c = 10 \<and> d = 10")
    case True
    with 1(1) [OF True] show ?thesis by simp
  next
    case False
    have "take 2 (capNewlines (b # c # d # cs)) = take 2 (take 3 (capNewlines (b # c # d # cs)))"
      by simp
    also have "\<dots> = [b, c]" by (simp only: 1(2) [OF False]) simp
    finally show ?thesis unfolding capNewlines_keep [OF False] by simp
  qed
qed simp_all

lemma capNewlines_idem: "capNewlines (capNewlines s) = capNewlines s"
proof (induction s rule: capNewlines.induct)
  case (1 a b c d cs)
  show ?case
  proof (cases "a = 10 \<and> b = 10 \<and> c = 10 \<and> d = 10")
    case True
    with 1(1) [OF True] show ?thesis by simp
  next
    case False
    let ?R = "capNewlines (b # c # d # cs)"
    from 1(2) [OF False] have ih: "capNewlines ?R = ?R" .
    have t: "take 3 ?R = [b, c, d]" by (simp add: capNewlines_take3)
    then obtain r where r: "?R = b # c # d # r"
      by (cases ?R; cases "tl ?R"; cases "tl (tl ?R)") auto
    have "capNewlines (a # ?R) = a # capNewlines ?R"
      unfolding r by (rule capNewlines_keep [OF False])
    with ih show ?thesis unfolding capNewlines_keep [OF False] by simp
  qed
qed simp_all

text \<open>The whitespace normalisation, the first and the last stage of \<open>preprocessText\<close>,
  is idempotent on every string.\<close>

lemma normalizeWhitespace_idem: "normalizeWhitespace (normalizeWhitespace s) = normalizeWhitespace s"
proof -
  let ?T = "collapseRuns 9 (collapseRuns 32 (replaceCR (replaceCRLF s)))"
  let ?N = "capNewlines ?T"
  have N: "normalizeWhitespace s = ?N" by (simp add: normalizeWhitespace_def)
  have "set ?N \<subseteq> set (replaceCR (replaceCRLF s))"
    using set_capNewlines set_collapseRuns by (meson subset_trans)
  with replaceCR_no_CR have cr: "13 \<notin> set ?N" by blast
  have b: "\<not> hasPair 32 ?N"
    by (intro capNewlines_keeps_no_pair collapseRuns_keeps_no_pair collapseRuns_no_pair)
  have t: "\<not> hasPair 9 ?N"
    by (intro capNewlines_keeps_no_pair collapseRuns_no_pair)
  have "normalizeWhitespace ?N = capNewlines ?N"
    by (simp add: normalizeWhitespace_def replaceCRLF_id [OF cr] replaceCR_id [OF cr]
          collapseRuns_id [OF b] collapseRuns_id [OF t])
  then show ?thesis by (simp only: N capNewlines_idem)
qed

section \<open>Examples\<close>

text \<open>On ASCII text \<open>toUpperCase\<close> changes the lower-case letters only.\<close>

definition asciiUpper :: "jstring \<Rightarrow> jstring" where
  "asciiUpper s = map (\<lambda>c. if isLower c then c - 32 else c) s"

lemmas charClasses = isSpace_def isDigit_def isLower_def isUpper_def isWord_def
  isLineTerminator_def isTerminator_def isMailChar_def isBulletGlyph_def isDashGlyph_def ci_def

subsection \<open>The name and age table\<close>

definition nameAgeTable :: jstring where
  "nameAgeTable = js ''Name|Age\<newline>---|---\<newline>Alice|30\<newline>Bob|25\<newline>Carol|22''"

lemma nameAgeTable_normalizeWhitespace: "normalizeWhitespace nameAgeTable = nameAgeTable"
  by (simp add: nameAgeTable_def js_def normalizeWhitespace_def replaceCR_def)

lemma nameAgeTable_removePDFArtifacts: "removePDFArtifacts nameAgeTable = nameAgeTable"
  by (simp add: nameAgeTable_def js_def removePDFArtifacts_def hyphenBreak_def charClasses)

lemma nameAgeTable_lines:
  "splitLines nameAgeTable = [js ''Name|Age'', js ''---|---'', js ''Alice|30'', js ''Bob|25'', js ''Carol|22'']"
  by (simp add: nameAgeTable_def js_def)

lemma nameAgeTable_removePageNumbers: "removePageNumbers nameAgeTable = nameAgeTable"
  unfolding removePageNumbers_def nameAgeTable_lines
  by (simp add: js_def trim_def pageNumberPattern_def skipPagePrefix_def shortNumber_def charClasses
        nameAgeTable_def)

lemma nameAgeTable_removeRepeatedSections: "removeRepeatedSections nameAgeTable = nameAgeTable"
  unfolding removeRepeatedSections_def nameAgeTable_lines
  by (simp add: js_def trim_def charClasses nameAgeTable_def)

lemma nameAgeTable_normalizeLists: "normalizeLists nameAgeTable = nameAgeTable"
  by (simp add: nameAgeTable_def js_def normalizeLists_def charClasses)

lemma nameAgeTable_trim: "trim nameAgeTable = nameAgeTable"
  by (simp add: nameAgeTable_def js_def trim_def charClasses)

lemma nameAgeTable_preprocessText: "preprocessText nameAgeTable chunkerOptions = nameAgeTable"
  by (simp add: preprocessText_def chunkerOptions_def nameAgeTable_normalizeWhitespace
        nameAgeTable_removePDFArtifacts nameAgeTable_removePageNumbers
        nameAgeTable_removeRepeatedSections nameAgeTable_normalizeLists nameAgeTable_trim)


lemma nameAgeTable_nonBlankLines:
  "nonBlankLines nameAgeTable = [js ''Name|Age'', js ''---|---'', js ''Alice|30'', js ''Bob|25'', js ''Carol|22'']"
  unfolding nonBlankLines_def nameAgeTable_lines
  by (simp add: js_def trim_def charClasses)

lemma nameAgeTable_variance:
  "lowLengthVariance
     (map length [js ''Name|Age'', js ''---|---'', js ''Alice|30'', js ''Bob|25'', js ''Carol|22''])"
proof -
  have "map length [js ''Name|Age'', js ''---|---'', js ''Alice|30'', js ''Bob|25'', js ''Carol|22'']
          = [8, 7, 8, 6, 8]"
    by (simp add: js_def)
  moreover have "lowLengthVariance [8, 7, 8, 6, 8]"
    by code_simp
  ultimately show ?thesis
    by (simp only:)
qed

lemma nameAgeTable_detectTable: "detectTable nameAgeTable = (True, 5 / 8)"
  unfolding detectTable_def nameAgeTable_nonBlankLines Let_def
  by (simp only: nameAgeTable_variance if_True) (simp add: js_def strIncludes_def charClasses)

lemma nameAgeTable_block:
  "analyzeContentBlock toUpperCase nameAgeTable 0 4 =
     \<lparr>blockText = nameAgeTable, blockType = TableType, blockConfidence = 5 / 8,
      startLine = 0, endLine = 4\<rparr>"
proof -
  have hf: "\<not> detectHeaderFooter nameAgeTable"
    by (simp add: detectHeaderFooter_def nameAgeTable_trim)
       (simp add: nameAgeTable_def js_def pageNumberPattern_def skipPagePrefix_def ciPrefix_def
          emailPattern_def charClasses)
  have hd: "detectHeading toUpperCase nameAgeTable = (False, 0)"
    by (simp add: detectHeading_def nameAgeTable_trim nameAgeTable_nonBlankLines)
  show ?thesis
    by (simp add: analyzeContentBlock_def hf hd nameAgeTable_detectTable)
qed

lemma nameAgeTable_blocks:
  "segmentIntoBlocks toUpperCase nameAgeTable =
     [\<lparr>blockText = nameAgeTable, blockType = TableType, blockConfidence = 5 / 8,
       startLine = 0, endLine = 4\<rparr>]"
proof -
  have "splitParagraphs nameAgeTable = [nameAgeTable]"
    by (simp add: nameAgeTable_def js_def)
  moreover have "nameAgeTable \<noteq> []" by (simp add: nameAgeTable_def js_def)
  moreover have "length (splitLines nameAgeTable) = 5" by (simp add: nameAgeTable_lines)
  ultimately show ?thesis
    by (simp add: segmentIntoBlocks_def segmentStep_def nameAgeTable_trim nameAgeTable_block)
qed

lemma nameAgeTable_length: "length nameAgeTable = 41"
  by (simp add: nameAgeTable_def js_def)

lemma nameAgeTable_allChunks:
  "allChunksOf toUpperCase nameAgeTable None config =
     (if 41 \<le> tableMaxSize config then Inr [newChunk nameAgeTable 0 TableType Medium]
      else chunkTableByRows \<lparr>blockText = nameAgeTable, blockType = TableType, blockConfidence = 5 / 8,
       startLine = 0, endLine = 4\<rparr> 0 config)"
  by (simp add: allChunksOf_def nameAgeTable_preprocessText nameAgeTable_blocks chunkBlock_def
        nameAgeTable_length split: sum.splits)

subsection \<open>Two short paragraphs\<close>

definition twoParagraphs :: jstring where
  "twoParagraphs = js ''ab\<newline>cd\<newline>\<newline>abcdef\<newline>ghijkl''"

lemma twoParagraphs_normalizeWhitespace: "normalizeWhitespace twoParagraphs = twoParagraphs"
  by (simp add: twoParagraphs_def js_def normalizeWhitespace_def replaceCR_def)

lemma twoParagraphs_removePDFArtifacts: "removePDFArtifacts twoParagraphs = twoParagraphs"
  by (simp add: twoParagraphs_def js_def removePDFArtifacts_def hyphenBreak_def charClasses)

lemma twoParagraphs_lines: "splitLines twoParagraphs = [js ''ab'', js ''cd'', js '''', js ''abcdef'', js ''ghijkl'']"
  by (simp add: twoParagraphs_def js_def)

lemma twoParagraphs_removePageNumbers: "removePageNumbers twoParagraphs = twoParagraphs"
  unfolding removePageNumbers_def twoParagraphs_lines
  by (simp add: js_def trim_def pageNumberPattern_def skipPagePrefix_def shortNumber_def charClasses
        twoParagraphs_def)

lemma twoParagraphs_removeRepeatedSections: "removeRepeatedSections twoParagraphs = twoParagraphs"
  unfolding removeRepeatedSections_def twoParagraphs_lines
  by (simp add: js_def trim_def charClasses twoParagraphs_def)

lemma twoParagraphs_normalizeLists: "normalizeLists twoParagraphs = twoParagraphs"
  by (simp add: twoParagraphs_def js_def normalizeLists_def charClasses)

lemma twoParagraphs_trim: "trim twoParagraphs = twoParagraphs"
  by (simp add: twoParagraphs_def js_def trim_def charClasses)

lemma twoParagraphs_preprocessText: "preprocessText twoParagraphs chunkerOptions = twoParagraphs"
  by (simp add: preprocessText_def chunkerOptions_def twoParagraphs_normalizeWhitespace
        twoParagraphs_removePDFArtifacts twoParagraphs_removePageNumbers
        twoParagraphs_removeRepeatedSections twoParagraphs_normalizeLists twoParagraphs_trim)

definition paraShort :: jstring where
  "paraShort = js ''ab\<newline>cd''"

definition paraLong :: jstring where
  "paraLong = js ''abcdef\<newline>ghijkl''"

lemma twoParagraphs_paragraphs: "splitParagraphs twoParagraphs = [paraShort, paraLong]"
  by (simp add: twoParagraphs_def paraShort_def paraLong_def js_def)

lemma paraShort_trim: "trim paraShort = paraShort"
  by (simp add: paraShort_def js_def trim_def charClasses)

lemma paraLong_trim: "trim paraLong = paraLong"
  by (simp add: paraLong_def js_def trim_def charClasses)

lemma paraShort_nonBlankLines: "nonBlankLines paraShort = [js ''ab'', js ''cd'']"
  by (simp add: nonBlankLines_def paraShort_def js_def trim_def charClasses)

lemma paraLong_nonBlankLines: "nonBlankLines paraLong = [js ''abcdef'', js ''ghijkl'']"
  by (simp add: nonBlankLines_def paraLong_def js_def trim_def charClasses)

lemma paraShort_block:
  "analyzeContentBlock toUpperCase paraShort s e =
     \<lparr>blockText = paraShort, blockType = TextType, blockConfidence = 1, startLine = s, endLine = e\<rparr>"
proof -
  have hf: "\<not> detectHeaderFooter paraShort"
    by (simp add: detectHeaderFooter_def paraShort_trim)
       (simp add: paraShort_def js_def pageNumberPattern_def skipPagePrefix_def ciPrefix_def
          emailPattern_def charClasses)
  have hd: "detectHeading toUpperCase paraShort = (False, 0)"
    by (simp add: detectHeading_def paraShort_trim paraShort_nonBlankLines)
  have "map length [js ''ab'', js ''cd''] = [2, 2]" by (simp add: js_def)
  moreover have "lowLengthVariance [2, 2]" by code_simp
  ultimately have "lowLengthVariance (map length [js ''ab'', js ''cd''])" by (simp only:)
  then have tb: "detectTable paraShort = (False, 1 / 8)"
    unfolding detectTable_def paraShort_nonBlankLines Let_def
    by (simp only: if_True) (simp add: js_def strIncludes_def charClasses)
  have li: "detectList paraShort = (False, 0)"
    unfolding detectList_def paraShort_nonBlankLines
    by (simp add: js_def bulletPattern_def indented_def charClasses)
  show ?thesis by (simp add: analyzeContentBlock_def hf hd tb li)
qed

lemma paraLong_block:
  "analyzeContentBlock toUpperCase paraLong s e =
     \<lparr>blockText = paraLong, blockType = TextType, blockConfidence = 1, startLine = s, endLine = e\<rparr>"
proof -
  have hf: "\<not> detectHeaderFooter paraLong"
    by (simp add: detectHeaderFooter_def paraLong_trim)
       (simp add: paraLong_def js_def pageNumberPattern_def skipPagePrefix_def ciPrefix_def
          emailPattern_def charClasses)
  have hd: "detectHeading toUpperCase paraLong = (False, 0)"
    by (simp add: detectHeading_def paraLong_trim paraLong_nonBlankLines)
  have "map length [js ''abcdef'', js ''ghijkl''] = [6, 6]" by (simp add: js_def)
  moreover have "lowLengthVariance [6, 6]" by code_simp
  ultimately have "lowLengthVariance (map length [js ''abcdef'', js ''ghijkl''])" by (simp only:)
  then have tb: "detectTable paraLong = (False, 1 / 8)"
    unfolding detectTable_def paraLong_nonBlankLines Let_def
    by (simp only: if_True) (simp add: js_def strIncludes_def charClasses)
  have li: "detectList paraLong = (False, 0)"
    unfolding detectList_def paraLong_nonBlankLines
    by (simp add: js_def bulletPattern_def indented_def charClasses)
  show ?thesis by (simp add: analyzeContentBlock_def hf hd tb li)
qed

lemma twoParagraphs_blocks:
  "segmentIntoBlocks toUpperCase twoParagraphs =
     [\<lparr>blockText = paraShort, blockType = TextType, blockConfidence = 1, startLine = 0, endLine = 1\<rparr>,
      \<lparr>blockText = paraLong, blockType = TextType, blockConfidence = 1, startLine = 4, endLine = 5\<rparr>]"
proof -
  have "paraShort \<noteq> []" "paraLong \<noteq> []" by (simp_all add: paraShort_def paraLong_def js_def)
  moreover have "length (splitLines paraShort) = 2" "length (splitLines paraLong) = 2"
    by (simp_all add: paraShort_def paraLong_def js_def)
  ultimately show ?thesis
    by (simp add: segmentIntoBlocks_def segmentStep_def twoParagraphs_paragraphs paraShort_trim
          paraLong_trim paraShort_block paraLong_block)
qed

lemma paragraph_lengths: "length paraShort = 5" "length paraLong = 13"
  by (simp_all add: paraShort_def paraLong_def js_def)

text \<open>The two chunks before the overlap, under a configuration the paragraphs fit.\<close>

lemma twoParagraphs_allChunks:
  assumes "13 \<le> maxChunkSize config"
  shows "allChunksOf toUpperCase twoParagraphs None config =
     Inr [newChunk paraShort 0 TextType High, newChunk paraLong 1 TextType High]"
  using assms
  by (simp add: allChunksOf_def twoParagraphs_preprocessText twoParagraphs_blocks chunkBlock_def
        paragraph_lengths)

subsection \<open>The two paragraphs under two configurations\<close>

definition filterConfig :: ChunkingConfig where
  "filterConfig = \<lparr>maxChunkSize = 100, overlapSize = 0, tableMaxSize = 100, minChunkSize = 6\<rparr>"

definition overlapConfig :: ChunkingConfig where
  "overlapConfig = \<lparr>maxChunkSize = 100, overlapSize = 3, tableMaxSize = 100, minChunkSize = 1\<rparr>"

text \<open>The second chunk with the tail of the first before it.\<close>

definition overlappedChunk :: Chunk where
  "overlappedChunk =
     \<lparr>content = js ''\<newline>cd\<newline>\<newline>abcdef\<newline>ghijkl'',
      metadata = \<lparr>chunkIndex = 1, pageNumber = None, contentType = TextType, confidence = High,
                  hasOverlap = True, originalLength = 13\<rparr>\<rparr>"

lemma twoParagraphs_filtered:
  "semanticChunk toUpperCase twoParagraphs None filterConfig = Inr [newChunk paraLong 1 TextType High]"
proof -
  have "allChunksOf toUpperCase twoParagraphs None filterConfig =
      Inr [newChunk paraShort 0 TextType High, newChunk paraLong 1 TextType High]"
    by (rule twoParagraphs_allChunks) (simp add: filterConfig_def)
  then show ?thesis
    by (simp add: semanticChunk_allChunksOf addOverlap_def filterConfig_def content_newChunk
          paraShort_trim paraLong_trim paragraph_lengths)
qed

lemma twoParagraphs_overlapped:
  "semanticChunk toUpperCase twoParagraphs None overlapConfig =
     Inr [newChunk paraShort 0 TextType High, overlappedChunk]"
proof -
  have all: "allChunksOf toUpperCase twoParagraphs None overlapConfig =
      Inr [newChunk paraShort 0 TextType High, newChunk paraLong 1 TextType High]"
    by (rule twoParagraphs_allChunks) (simp add: overlapConfig_def)
  have ov: "addOverlap [newChunk paraShort 0 TextType High, newChunk paraLong 1 TextType High] 3 =
      [newChunk paraShort 0 TextType High, overlappedChunk]"
    by (simp add: addOverlap_def newChunk_def overlappedChunk_def paraShort_def paraLong_def js_def
          sliceLast_def startsWith_def)
  have t: "length (trim (content overlappedChunk)) = 17"
    by (simp add: overlappedChunk_def js_def trim_def charClasses)
  have c: "overlapSize overlapConfig = 3" "minChunkSize overlapConfig = 1"
    by (simp_all add: overlapConfig_def)
  show ?thesis
    unfolding semanticChunk_allChunksOf all sum.case c ov
    by (simp add: content_newChunk paraShort_trim paragraph_lengths t)
qed


subsection \<open>Three paragraphs, the middle one short\<close>

definition threeParagraphs :: jstring where
  "threeParagraphs = js ''abcdef\<newline>ghijkl\<newline>\<newline>ab\<newline>cd\<newline>\<newline>mnopqr\<newline>stuvwx''"

lemma threeParagraphs_normalizeWhitespace: "normalizeWhitespace threeParagraphs = threeParagraphs"
  by (simp add: threeParagraphs_def js_def normalizeWhitespace_def replaceCR_def)

lemma threeParagraphs_removePDFArtifacts: "removePDFArtifacts threeParagraphs = threeParagraphs"
  by (simp add: threeParagraphs_def js_def removePDFArtifacts_def hyphenBreak_def charClasses)

lemma threeParagraphs_lines:
  "splitLines threeParagraphs =
     [js ''abcdef'', js ''ghijkl'', js '''', js ''ab'', js ''cd'', js '''', js ''mnopqr'', js ''stuvwx'']"
  by (simp add: threeParagraphs_def js_def)

lemma threeParagraphs_removePageNumbers: "removePageNumbers threeParagraphs = threeParagraphs"
  unfolding removePageNumbers_def threeParagraphs_lines
  by (simp add: js_def trim_def pageNumberPattern_def skipPagePrefix_def shortNumber_def charClasses
        threeParagraphs_def)

lemma threeParagraphs_removeRepeatedSections: "removeRepeatedSections threeParagraphs = threeParagraphs"
  unfolding removeRepeatedSections_def threeParagraphs_lines
  by (simp add: js_def trim_def charClasses threeParagraphs_def)

lemma threeParagraphs_normalizeLists: "normalizeLists threeParagraphs = threeParagraphs"
  by (simp add: threeParagraphs_def js_def normalizeLists_def charClasses)

lemma threeParagraphs_trim: "trim threeParagraphs = threeParagraphs"
  by (simp add: threeParagraphs_def js_def trim_def charClasses)

lemma threeParagraphs_preprocessText: "preprocessText threeParagraphs chunkerOptions = threeParagraphs"
  by (simp add: preprocessText_def chunkerOptions_def threeParagraphs_normalizeWhitespace
        threeParagraphs_removePDFArtifacts threeParagraphs_removePageNumbers
        threeParagraphs_removeRepeatedSections threeParagraphs_normalizeLists threeParagraphs_trim)

definition paraThird :: jstring where
  "paraThird = js ''mnopqr\<newline>stuvwx''"

lemma threeParagraphs_paragraphs: "splitParagraphs threeParagraphs = [paraLong, paraShort, paraThird]"
  by (simp add: threeParagraphs_def paraShort_def paraLong_def paraThird_def js_def)

lemma paraThird_trim: "trim paraThird = paraThird"
  by (simp add: paraThird_def js_def trim_def charClasses)

lemma paraThird_nonBlankLines: "nonBlankLines paraThird = [js ''mnopqr'', js ''stuvwx'']"
  by (simp add: nonBlankLines_def paraThird_def js_def trim_def charClasses)

lemma paraThird_block:
  "analyzeContentBlock toUpperCase paraThird s e =
     \<lparr>blockText = paraThird, blockType = TextType, blockConfidence = 1, startLine = s, endLine = e\<rparr>"
proof -
  have hf: "\<not> detectHeaderFooter paraThird"
    by (simp add: detectHeaderFooter_def paraThird_trim)
       (simp add: paraThird_def js_def pageNumberPattern_def skipPagePrefix_def ciPrefix_def
          emailPattern_def charClasses)
  have hd: "detectHeading toUpperCase paraThird = (False, 0)"
    by (simp add: detectHeading_def paraThird_trim paraThird_nonBlankLines)
  have "map length [js ''mnopqr'', js ''stuvwx''] = [6, 6]" by (simp add: js_def)
  moreover have "lowLengthVariance [6, 6]" by code_simp
  ultimately have "lowLengthVariance (map length [js ''mnopqr'', js ''stuvwx''])" by (simp only:)
  then have tb: "detectTable paraThird = (False, 1 / 8)"
    unfolding detectTable_def paraThird_nonBlankLines Let_def
    by (simp only: if_True) (simp add: js_def strIncludes_def charClasses)
  have li: "detectList paraThird = (False, 0)"
    unfolding detectList_def paraThird_nonBlankLines
    by (simp add: js_def bulletPattern_def indented_def charClasses)
  show ?thesis by (simp add: analyzeContentBlock_def hf hd tb li)
qed

lemma threeParagraphs_blocks:
  "segmentIntoBlocks toUpperCase threeParagraphs =
     [\<lparr>blockText = paraLong, blockType = TextType, blockConfidence = 1, startLine = 0, endLine = 1\<rparr>,
      \<lparr>blockText = paraShort, blockType = TextType, blockConfidence = 1, startLine = 4, endLine = 5\<rparr>,
      \<lparr>blockText = paraThird, blockType = TextType, blockConfidence = 1, startLine = 8, endLine = 9\<rparr>]"
proof -
  have "paraShort \<noteq> []" "paraLong \<noteq> []" "paraThird \<noteq> []"
    by (simp_all add: paraShort_def paraLong_def paraThird_def js_def)
  moreover have "length (splitLines paraShort) = 2" "length (splitLines paraLong) = 2"
    "length (splitLines paraThird) = 2"
    by (simp_all add: paraShort_def paraLong_def paraThird_def js_def)
  ultimately show ?thesis
    by (simp add: segmentIntoBlocks_def segmentStep_def threeParagraphs_paragraphs paraShort_trim
          paraLong_trim paraThird_trim paraShort_block paraLong_block paraThird_block)
qed

lemma paraThird_length: "length paraThird = 13"
  by (simp add: paraThird_def js_def)

lemma threeParagraphs_allChunks:
  assumes "13 \<le> maxChunkSize config"
  shows "allChunksOf toUpperCase threeParagraphs None config =
     Inr [newChunk paraLong 0 TextType High, newChunk paraShort 1 TextType High,
          newChunk paraThird 2 TextType High]"
  using assms
  by (simp add: allChunksOf_def threeParagraphs_preprocessText threeParagraphs_blocks chunkBlock_def
        paragraph_lengths paraThird_length numeral_2_eq_2)

definition gapConfig :: ChunkingConfig where
  "gapConfig = \<lparr>maxChunkSize = 100, overlapSize = 3, tableMaxSize = 100, minChunkSize = 11\<rparr>"

text \<open>The second chunk with the tail of the first before it, which the final filter drops,
  and the third with the tail of the second.\<close>

definition droppedChunk :: Chunk where
  "droppedChunk =
     \<lparr>content = js ''jkl\<newline>\<newline>ab\<newline>cd'',
      metadata = \<lparr>chunkIndex = 1, pageNumber = None, contentType = TextType, confidence = High,
                  hasOverlap = True, originalLength = 5\<rparr>\<rparr>"

definition gapChunk :: Chunk where
  "gapChunk =
     \<lparr>content = js ''\<newline>cd\<newline>\<newline>mnopqr\<newline>stuvwx'',
      metadata = \<lparr>chunkIndex = 2, pageNumber = None, contentType = TextType, confidence = High,
                  hasOverlap = True, originalLength = 13\<rparr>\<rparr>"

lemma threeParagraphs_gap:
  "semanticChunk toUpperCase threeParagraphs None gapConfig =
     Inr [newChunk paraLong 0 TextType High, gapChunk]"
proof -
  have all: "allChunksOf toUpperCase threeParagraphs None gapConfig =
      Inr [newChunk paraLong 0 TextType High, newChunk paraShort 1 TextType High,
           newChunk paraThird 2 TextType High]"
    by (rule threeParagraphs_allChunks) (simp add: gapConfig_def)
  have ov: "addOverlap [newChunk paraLong 0 TextType High, newChunk paraShort 1 TextType High,
                        newChunk paraThird 2 TextType High] 3 =
      [newChunk paraLong 0 TextType High, droppedChunk, gapChunk]"
    by (simp add: addOverlap_def newChunk_def droppedChunk_def gapChunk_def paraShort_def paraLong_def
          paraThird_def js_def sliceLast_def startsWith_def)
  have t: "length (trim (content droppedChunk)) = 10" "length (trim (content gapChunk)) = 17"
    by (simp_all add: droppedChunk_def gapChunk_def js_def trim_def charClasses)
  have c: "overlapSize gapConfig = 3" "minChunkSize gapConfig = 11"
    by (simp_all add: gapConfig_def)
  show ?thesis
    unfolding semanticChunk_allChunksOf all sum.case c ov
    by (simp add: content_newChunk paraLong_trim paragraph_lengths t)
qed

definition overlapFilterConfig :: ChunkingConfig where
  "overlapFilterConfig = \<lparr>maxChunkSize = 100, overlapSize = 3, tableMaxSize = 100, minChunkSize = 6\<rparr>"

lemma twoParagraphs_overlapped_filtered:
  "semanticChunk toUpperCase twoParagraphs None overlapFilterConfig = Inr [overlappedChunk]"
proof -
  have all: "allChunksOf toUpperCase twoParagraphs None overlapFilterConfig =
      Inr [newChunk paraShort 0 TextType High, newChunk paraLong 1 TextType High]"
    by (rule twoParagraphs_allChunks) (simp add: overlapFilterConfig_def)
  have ov: "addOverlap [newChunk paraShort 0 TextType High, newChunk paraLong 1 TextType High] 3 =
      [newChunk paraShort 0 TextType High, overlappedChunk]"
    by (simp add: addOverlap_def newChunk_def overlappedChunk_def paraShort_def paraLong_def js_def
          sliceLast_def startsWith_def)
  have t: "length (trim (content overlappedChunk)) = 17"
    by (simp add: overlappedChunk_def js_def trim_def charClasses)
  have c: "overlapSize overlapFilterConfig = 3" "minChunkSize overlapFilterConfig = 6"
    by (simp_all add: overlapFilterConfig_def)
  show ?thesis
    unfolding semanticChunk_allChunksOf all sum.case c ov
    by (simp add: content_newChunk paraShort_trim paragraph_lengths t)
qed

text \<open>
  Claim C1 as stated fails.  In the two paragraphs the first makes chunk 0, which the
  final filter drops for being shorter than \<open>minChunkSize\<close>: the list returned starts with
  chunk 1, not 0.  In the three paragraphs the filter drops the middle chunk: the list
  returned holds the chunks 0 and 2, which are not contiguous.
\<close>

theorem semanticChunk_indices_not_contiguous:
  "semanticChunk asciiUpper twoParagraphs None filterConfig = Inr [newChunk paraLong 1 TextType High]
   \<and> chunkIndex (metadata ([newChunk paraLong 1 TextType High] ! 0)) = 1
   \<and> semanticChunk asciiUpper threeParagraphs None gapConfig
       = Inr [newChunk paraLong 0 TextType High, gapChunk]
   \<and> chunkIndex (metadata ([newChunk paraLong 0 TextType High, gapChunk] ! 0)) = 0
   \<and> chunkIndex (metadata ([newChunk paraLong 0 TextType High, gapChunk] ! 1)) = 2"
  by (simp add: twoParagraphs_filtered threeParagraphs_gap index_newChunk gapChunk_def)

text \<open>The two paragraphs with an overlap of 3 and a minimum of 1: no chunk is dropped, and
  the chunks returned are numbered 0 and 1.\<close>

theorem semanticChunk_indices_increase_witness:
  "semanticChunk asciiUpper twoParagraphs None overlapConfig
     = Inr [newChunk paraShort 0 TextType High, overlappedChunk]
   \<and> chunkIndex (metadata (newChunk paraShort 0 TextType High)) < chunkIndex (metadata overlappedChunk)
   \<and> chunkIndex (metadata (newChunk paraShort 0 TextType High)) = 0
   \<and> chunkIndex (metadata overlappedChunk) = 1"
proof -
  let ?chunks = "[newChunk paraShort 0 TextType High, overlappedChunk]"
  note run = twoParagraphs_overlapped [of asciiUpper]
  have known: "allChunksOf asciiUpper twoParagraphs None overlapConfig =
      Inr [newChunk paraShort 0 TextType High, newChunk paraLong 1 TextType High]"
    by (rule twoParagraphs_allChunks) (simp add: overlapConfig_def)
  from semanticChunk_indices_increase [OF run] obtain all
    where all: "allChunksOf asciiUpper twoParagraphs None overlapConfig = Inr all"
      and increasing: "\<forall>i j. i < j \<and> j < length ?chunks \<longrightarrow>
          chunkIndex (metadata (?chunks ! i)) < chunkIndex (metadata (?chunks ! j))"
      and contiguous: "length ?chunks = length all \<longrightarrow>
          (\<forall>i < length ?chunks. chunkIndex (metadata (?chunks ! i)) = i)"
    by blast
  from increasing have "0 < (1::nat) \<and> 1 < length ?chunks \<longrightarrow>
          chunkIndex (metadata (?chunks ! 0)) < chunkIndex (metadata (?chunks ! 1))"
    by blast
  then have less: "chunkIndex (metadata (newChunk paraShort 0 TextType High))
                     < chunkIndex (metadata overlappedChunk)"
    by simp
  from all known have "all = [newChunk paraShort 0 TextType High, newChunk paraLong 1 TextType High]"
    by simp
  then have "length ?chunks = length all" by simp
  with contiguous have every: "\<forall>i < length ?chunks. chunkIndex (metadata (?chunks ! i)) = i"
    by blast
  then have "0 < length ?chunks \<longrightarrow> chunkIndex (metadata (?chunks ! 0)) = 0" by blast
  then have zero: "chunkIndex (metadata (newChunk paraShort 0 TextType High)) = 0" by simp
  from every have "1 < length ?chunks \<longrightarrow> chunkIndex (metadata (?chunks ! 1)) = 1" by blast
  then have one: "chunkIndex (metadata overlappedChunk) = 1" by simp
  from run less zero one show ?thesis by simp
qed

text \<open>
  Claim C10 as stated fails when ``the preceding chunk'' is the one before in the list
  returned.  In the three paragraphs the list returned holds the chunks 0 and 2; chunk 2
  has \<open>hasOverlap\<close> and starts with the tail of chunk 1, which the filter dropped, not with
  the tail \<^verbatim>\<open>jkl\<close> of chunk 0, whose content never had an overlap.  In the two paragraphs
  with a minimum of 6 the list returned holds chunk 1 alone, with \<open>hasOverlap\<close> and no
  chunk before it.
\<close>

theorem semanticChunk_overlap_from_dropped_chunk:
  "semanticChunk asciiUpper threeParagraphs None gapConfig
       = Inr [newChunk paraLong 0 TextType High, gapChunk]
   \<and> hasOverlap (metadata gapChunk)
   \<and> \<not> hasOverlap (metadata (newChunk paraLong 0 TextType High))
   \<and> sliceLast (overlapSize gapConfig) (content (newChunk paraLong 0 TextType High)) = js ''jkl''
   \<and> \<not> (\<exists>original. length original = originalLength (metadata gapChunk)
            \<and> content gapChunk
                = sliceLast (overlapSize gapConfig) (content (newChunk paraLong 0 TextType High))
                    @ [10, 10] @ original)
   \<and> semanticChunk asciiUpper twoParagraphs None overlapFilterConfig = Inr [overlappedChunk]
   \<and> hasOverlap (metadata (hd [overlappedChunk]))"
proof -
  have "sliceLast (overlapSize gapConfig) (content (newChunk paraLong 0 TextType High)) = js ''jkl''"
    by (simp add: gapConfig_def newChunk_def paraLong_def js_def sliceLast_def)
  moreover have "content gapChunk \<noteq> js ''jkl'' @ [10, 10] @ original" for original
    by (simp add: gapChunk_def js_def)
  ultimately show ?thesis
    by (simp add: threeParagraphs_gap twoParagraphs_overlapped_filtered gapChunk_def
          overlappedChunk_def newChunk_def)
qed

text \<open>The two paragraphs with an overlap of 3 and a minimum of 1: the second chunk has the
  tail of the first before it.\<close>

theorem semanticChunk_overlap_metadata_witness:
  "semanticChunk asciiUpper twoParagraphs None overlapConfig
     = Inr [newChunk paraShort 0 TextType High, overlappedChunk]
   \<and> hasOverlap (metadata overlappedChunk)
   \<and> length (content overlappedChunk) \<noteq> originalLength (metadata overlappedChunk)
   \<and> (\<exists>all i. allChunksOf asciiUpper twoParagraphs None overlapConfig = Inr all
          \<and> i = chunkIndex (metadata overlappedChunk) \<and> 0 < i \<and> i < length all
          \<and> content overlappedChunk
                = sliceLast (overlapSize overlapConfig) (content (all ! (i - 1))) @ [10, 10] @ content (all ! i)
          \<and> length (content (all ! i)) = originalLength (metadata overlappedChunk))"
proof -
  note run = twoParagraphs_overlapped [of asciiUpper]
  have m: "overlappedChunk \<in> set [newChunk paraShort 0 TextType High, overlappedChunk]" by simp
  have h: "hasOverlap (metadata overlappedChunk)" by (simp add: overlappedChunk_def)
  from semanticChunk_overlap_metadata [OF run m] h run show ?thesis by simp
qed

subsection \<open>The variance test in doubles\<close>

text \<open>For lines of 3, 8, 9, 9 and 15 characters the exact variance 2.64 is 0.3 times the
  exact average 8.8; in doubles the variance is 2.6399999999999997 and the product 2.64, so
  the test \<^verbatim>\<open>variance < avgLength * 0.3\<close> holds.\<close>

lemma lowLengthVariance_tie: "lowLengthVariance [3, 8, 9, 9, 15]"
  by code_simp

subsection \<open>White space\<close>

text \<open>A blank, a tab, a newline and a blank give no chunk.\<close>

theorem semanticChunk_never_throws_witness:
  "list_all isSpace [32, 9, 10, 32]
   \<and> semanticChunk asciiUpper [32, 9, 10, 32] None DEFAULT_CONFIG = Inr []"
  using semanticChunk_never_throws [of asciiUpper "[32, 9, 10, 32]" None DEFAULT_CONFIG]
  by (simp add: isSpace_def)

subsection \<open>One long word\<close>

definition longWord :: jstring where
  "longWord = js ''aaaaaaaaaaaaaaaaaaaaaaaaaaaaaaaaaaaaaaaa''"

lemma longWord_normalizeWhitespace: "normalizeWhitespace longWord = longWord"
  by (simp add: longWord_def js_def normalizeWhitespace_def replaceCR_def)

lemma longWord_removePDFArtifacts: "removePDFArtifacts longWord = longWord"
  by (simp add: longWord_def js_def removePDFArtifacts_def hyphenBreak_def charClasses)

lemma longWord_lines: "splitLines longWord = [js ''aaaaaaaaaaaaaaaaaaaaaaaaaaaaaaaaaaaaaaaa'']"
  by (simp add: longWord_def js_def)

lemma longWord_removePageNumbers: "removePageNumbers longWord = longWord"
  unfolding removePageNumbers_def longWord_lines
  by (simp add: js_def trim_def pageNumberPattern_def skipPagePrefix_def shortNumber_def charClasses
        longWord_def)

lemma longWord_removeRepeatedSections: "removeRepeatedSections longWord = longWord"
  unfolding removeRepeatedSections_def longWord_lines
  by (simp add: js_def trim_def charClasses longWord_def)

lemma longWord_normalizeLists: "normalizeLists longWord = longWord"
  by (simp add: longWord_def js_def normalizeLists_def charClasses)

lemma longWord_trim: "trim longWord = longWord"
  by (simp add: longWord_def js_def trim_def charClasses)

lemma longWord_preprocessText: "preprocessText longWord chunkerOptions = longWord"
  by (simp add: preprocessText_def chunkerOptions_def longWord_normalizeWhitespace
        longWord_removePDFArtifacts longWord_removePageNumbers
        longWord_removeRepeatedSections longWord_normalizeLists longWord_trim)

definition tinyBudget :: ChunkingConfig where
  "tinyBudget = \<lparr>maxChunkSize = 5, overlapSize = 1, tableMaxSize = 10, minChunkSize = 1\<rparr>"

lemma longWord_nonBlankLines: "nonBlankLines longWord = [longWord]"
  by (simp add: nonBlankLines_def longWord_lines longWord_trim [unfolded longWord_def] )
     (simp add: longWord_def js_def)

lemma longWord_length: "length longWord = 40"
  by (simp add: longWord_def js_def)

lemma longWord_block:
  "analyzeContentBlock asciiUpper longWord s e =
     \<lparr>blockText = longWord, blockType = TextType, blockConfidence = 1, startLine = s, endLine = e\<rparr>"
proof -
  have hf: "\<not> detectHeaderFooter longWord"
    by (simp add: detectHeaderFooter_def longWord_trim longWord_length)
       (simp add: longWord_def js_def pageNumberPattern_def skipPagePrefix_def ciPrefix_def
          emailPattern_def charClasses)
  have up: "asciiUpper longWord \<noteq> longWord"
    by (simp add: asciiUpper_def longWord_def js_def charClasses)
  have tc: "\<not> (case longWord of a # b # x \<Rightarrow> isUpper a \<and> isLower b | _ \<Rightarrow> False)"
    by (simp add: longWord_def js_def charClasses)
  have la: "last longWord = 97" "longWord \<noteq> []"
    by (simp_all add: longWord_def js_def)
  have kw: "\<not> ciPrefix k longWord" if "hd k \<noteq> 97" "k \<noteq> []" for k
    using that by (cases k) (simp_all add: ciPrefix_def longWord_def js_def ci_def isLower_def)
  have ab: "\<not> ciPrefix [97, 98, 111, 117, 116] longWord"
    by (simp add: ciPrefix_def longWord_def js_def ci_def isLower_def)
  have em: "\<not> emphasisPrefix longWord" "\<not> hasDoubleStar longWord"
    by (simp_all add: emphasisPrefix_def longWord_def js_def)
  have hd: "detectHeading asciiUpper longWord = (False, 7 / 24)"
    using up
    by (simp add: detectHeading_def longWord_trim longWord_nonBlankLines longWord_length tc la
          isTerminator_def kw ab em js_def)
  have tb: "detectTable longWord = (False, 0)"
    by (simp add: detectTable_def longWord_nonBlankLines)
  have li: "detectList longWord = (False, 0)"
    by (simp add: detectList_def longWord_nonBlankLines)
  show ?thesis by (simp add: analyzeContentBlock_def hf hd tb li)
qed

lemma longWord_blocks:
  "segmentIntoBlocks asciiUpper longWord =
     [\<lparr>blockText = longWord, blockType = TextType, blockConfidence = 1, startLine = 0, endLine = 0\<rparr>]"
proof -
  have "splitParagraphs longWord = [longWord]" by (simp add: longWord_def js_def)
  moreover have "longWord \<noteq> []" by (simp add: longWord_def js_def)
  ultimately show ?thesis
    by (simp add: segmentIntoBlocks_def segmentStep_def longWord_trim longWord_block longWord_lines)
qed

lemma longWord_sentences: "matchSentences longWord = []"
  by (simp add: longWord_def js_def isTerminator_def)

lemma longWord_chunks:
  "semanticChunk asciiUpper longWord None tinyBudget = Inr [newChunk longWord 0 TextType High]"
proof -
  let ?b = "\<lparr>blockText = longWord, blockType = TextType, blockConfidence = 1, startLine = 0, endLine = 0\<rparr>"
  have st: "foldl (sentenceStep tinyBudget ?b) ([], [], 0)
              (if matchSentences (blockText ?b) = [] then [blockText ?b] else matchSentences (blockText ?b))
            = ([], longWord, 0)"
    by (simp add: longWord_sentences sentenceStep_def longWord_trim longWord_length tinyBudget_def)
  have "chunkTextBySentences ?b 0 tinyBudget = [newChunk longWord 0 TextType High]"
    unfolding chunkTextBySentences_final [OF st]
    using longWord_length by (auto simp: tinyBudget_def)
  then have "allChunksOf asciiUpper longWord None tinyBudget = Inr [newChunk longWord 0 TextType High]"
    by (simp add: allChunksOf_def longWord_preprocessText longWord_blocks chunkBlock_def
          longWord_length tinyBudget_def)
  then show ?thesis
    by (simp add: semanticChunk_allChunksOf addOverlap_def content_newChunk longWord_trim
          longWord_length tinyBudget_def)
qed

text \<open>
  Claim C4 as stated fails: a sentence is never divided, so a text of one word of 40
  characters is one text chunk of 40 characters where \<open>maxChunkSize + overlapSize\<close> is 6.
\<close>

theorem semanticChunk_chunk_exceeds_budget:
  "semanticChunk asciiUpper longWord None tinyBudget = Inr [newChunk longWord 0 TextType High]
   \<and> contentType (metadata (newChunk longWord 0 TextType High)) = TextType
   \<and> length (content (newChunk longWord 0 TextType High)) = 40
   \<and> maxChunkSize tinyBudget + overlapSize tinyBudget = 6"
proof -
  have "maxChunkSize tinyBudget + overlapSize tinyBudget = 6" by (simp add: tinyBudget_def)
  then show ?thesis by (simp add: longWord_chunks newChunk_def longWord_length)
qed

lemma paragraphs_sentences: "matchSentences paraShort = []" "matchSentences paraLong = []"
  by (simp_all add: paraShort_def paraLong_def js_def isTerminator_def)

text \<open>The two paragraphs with an overlap of 3: every unit fits, and the second chunk is
  within the bounds.\<close>

theorem semanticChunk_chunk_size_witness:
  "semanticChunk asciiUpper twoParagraphs None overlapConfig
     = Inr [newChunk paraShort 0 TextType High, overlappedChunk]
   \<and> list_all (unitsFit overlapConfig)
        (segmentIntoBlocks asciiUpper (preprocessText twoParagraphs chunkerOptions))
   \<and> length (content overlappedChunk) \<le> originalLength (metadata overlappedChunk) + overlapSize overlapConfig + 2
   \<and> length (content overlappedChunk)
        \<le> maxChunkSize overlapConfig + minChunkSize overlapConfig + overlapSize overlapConfig + 2"
proof -
  note run = twoParagraphs_overlapped [of asciiUpper]
  have m: "overlappedChunk \<in> set [newChunk paraShort 0 TextType High, overlappedChunk]" by simp
  have fit: "list_all (unitsFit overlapConfig)
        (segmentIntoBlocks asciiUpper (preprocessText twoParagraphs chunkerOptions))"
    by (simp add: twoParagraphs_preprocessText twoParagraphs_blocks unitsFit_def paragraphs_sentences
          paraShort_trim paraLong_trim paragraph_lengths overlapConfig_def)
  have t: "contentType (metadata overlappedChunk) = TextType" by (simp add: overlappedChunk_def)
  from semanticChunk_chunk_size [OF run m] fit run t show ?thesis by simp
qed

subsection \<open>The name and age table under the default configuration\<close>

text \<open>
  Claim C7 as stated fails: the table is one block and one chunk, but the chunk has 41
  characters, fewer than the default \<open>minChunkSize\<close> of 100, and the final filter drops it.
\<close>

theorem nameAgeTable_dropped:
  "semanticChunk asciiUpper nameAgeTable None DEFAULT_CONFIG = Inr []"
  by (simp add: semanticChunk_allChunksOf nameAgeTable_allChunks addOverlap_def DEFAULT_CONFIG_def
        content_newChunk nameAgeTable_trim nameAgeTable_length)

text \<open>
  Claim C7, amended.  For the input \<open>"Name|Age\n---|---\nAlice|30\nBob|25\nCarol|22"\<close>
  the segmentation gives one block, classified as a table with confidence 5/8, above 0.4.
  Under the default configuration \<open>chunkBlock\<close> makes it exactly one chunk, of 41
  characters; \<open>semanticChunk\<close> returns no chunk, because 41 is below the default
  \<open>minChunkSize\<close>; with \<open>minChunkSize\<close> lowered to 41 it returns exactly that one chunk.
\<close>

theorem nameAgeTable_one_table_chunk:
  "segmentIntoBlocks asciiUpper (preprocessText nameAgeTable chunkerOptions) =
     [\<lparr>blockText = nameAgeTable, blockType = TableType, blockConfidence = 5 / 8,
       startLine = 0, endLine = 4\<rparr>]
   \<and> (5 / 8 :: rat) > 4 / 10
   \<and> length nameAgeTable = 41
   \<and> allChunksOf asciiUpper nameAgeTable None DEFAULT_CONFIG
        = Inr [newChunk nameAgeTable 0 TableType Medium]
   \<and> semanticChunk asciiUpper nameAgeTable None DEFAULT_CONFIG = Inr []
   \<and> semanticChunk asciiUpper nameAgeTable None (DEFAULT_CONFIG\<lparr>minChunkSize := 41\<rparr>)
        = Inr [newChunk nameAgeTable 0 TableType Medium]"
  by (simp add: nameAgeTable_preprocessText nameAgeTable_blocks semanticChunk_allChunksOf
        nameAgeTable_allChunks addOverlap_def DEFAULT_CONFIG_def content_newChunk nameAgeTable_trim
        nameAgeTable_length)

subsection \<open>A short document\<close>















subsection \<open>A final fragment that is merged\<close>






subsection \<open>Idempotence on a noisy text, and a text on which it fails\<close>

text \<open>The noisy text: CR LF line ends, a run of blanks, a run of blank lines, words run
  together, a word broken at a line end, a page number line, a running header on three
  lines, a dash bullet and a numbered item.\<close>

definition noisy :: jstring where
  "noisy = js ''Acme Corp'' @ [13, 10] @ js ''fooBar  x'' @ [13, 10] @ js ''Acme Corp'' @ [13, 10, 13, 10, 13, 10, 13, 10, 13, 10] @ js ''Page 2'' @ [13, 10] @ js ''- one'' @ [13, 10] @ js ''2) two'' @ [13, 10] @ js ''Acme Corp'' @ [13, 10] @ js ''wrap-'' @ [13, 10] @ js ''ped''"

definition noisyNormalized :: jstring where
  "noisyNormalized = js ''Acme Corp\<newline>fooBar x\<newline>Acme Corp\<newline>\<newline>\<newline>Page 2\<newline>- one\<newline>2) two\<newline>Acme Corp\<newline>wrap-\<newline>ped''"

definition noisyJoined :: jstring where
  "noisyJoined = js ''Acme Corp\<newline>foo Bar x\<newline>Acme Corp\<newline>\<newline>\<newline>Page 2\<newline>- one\<newline>2) two\<newline>Acme Corp\<newline>wrapped''"

definition noisyPaged :: jstring where
  "noisyPaged = js ''Acme Corp\<newline>foo Bar x\<newline>Acme Corp\<newline>\<newline>\<newline>- one\<newline>2) two\<newline>Acme Corp\<newline>wrapped''"

definition noisyDeduplicated :: jstring where
  "noisyDeduplicated = js ''foo Bar x\<newline>\<newline>\<newline>- one\<newline>2) two\<newline>wrapped''"

definition noisyClean :: jstring where
  "noisyClean = js ''foo Bar x\<newline>'' @ [8226] @ js '' one\<newline>2. two\<newline>wrapped''"

lemmas noisy_defs = noisy_def noisyNormalized_def noisyJoined_def noisyPaged_def
  noisyDeduplicated_def noisyClean_def js_def

lemma noisy_normalizeWhitespace: "normalizeWhitespace noisy = noisyNormalized"
  by (simp add: noisy_defs normalizeWhitespace_def replaceCR_def)

lemma noisy_removePDFArtifacts: "removePDFArtifacts noisyNormalized = noisyJoined"
  by (simp add: noisy_defs removePDFArtifacts_def hyphenBreak_def charClasses)

lemma noisy_removePageNumbers: "removePageNumbers noisyJoined = noisyPaged"
  by (simp add: noisy_defs removePageNumbers_def trim_def pageNumberPattern_def skipPagePrefix_def
        skipSeparator_def shortNumber_def charClasses)

lemma noisy_removeStandaloneLinks: "removeStandaloneLinks noisyPaged = noisyPaged"
  by (simp add: noisy_defs removeStandaloneLinks_def trim_def urlPattern_def emailPattern_def
        charClasses)

lemma noisy_removeRepeatedSections: "removeRepeatedSections noisyPaged = noisyDeduplicated"
  by (simp add: noisy_defs removeRepeatedSections_def trim_def charClasses)

lemma noisy_normalizeLists: "normalizeLists noisyDeduplicated = noisyClean"
  by (simp add: noisy_defs normalizeLists_def charClasses)

lemma noisyClean_normalizeWhitespace: "normalizeWhitespace noisyClean = noisyClean"
  by (simp add: noisy_defs normalizeWhitespace_def replaceCR_def)

lemma noisyClean_trim: "trim noisyClean = noisyClean"
  by (simp add: noisy_defs trim_def charClasses)

lemma noisy_preprocessText: "preprocessText noisy defaultOptions = noisyClean"
  by (simp add: preprocessText_def defaultOptions_def noisy_normalizeWhitespace
        noisy_removePDFArtifacts noisy_removePageNumbers noisy_removeStandaloneLinks
        noisy_removeRepeatedSections noisy_normalizeLists noisyClean_normalizeWhitespace
        noisyClean_trim)

lemma noisyClean_removePDFArtifacts: "removePDFArtifacts noisyClean = noisyClean"
  by (simp add: noisy_defs removePDFArtifacts_def hyphenBreak_def charClasses)

lemma noisyClean_removePageNumbers: "removePageNumbers noisyClean = noisyClean"
  by (simp add: noisy_defs removePageNumbers_def trim_def pageNumberPattern_def skipPagePrefix_def
        skipSeparator_def shortNumber_def charClasses)

lemma noisyClean_removeStandaloneLinks: "removeStandaloneLinks noisyClean = noisyClean"
  by (simp add: noisy_defs removeStandaloneLinks_def trim_def urlPattern_def emailPattern_def
        charClasses)

lemma noisyClean_removeRepeatedSections: "removeRepeatedSections noisyClean = noisyClean"
  by (simp add: noisy_defs removeRepeatedSections_def trim_def charClasses)

lemma noisyClean_normalizeLists: "normalizeLists noisyClean = noisyClean"
  by (simp add: noisy_defs normalizeLists_def charClasses)

lemma noisyClean_preprocessText: "preprocessText noisyClean defaultOptions = noisyClean"
  by (simp add: preprocessText_def defaultOptions_def noisyClean_normalizeWhitespace
        noisyClean_removePDFArtifacts noisyClean_removePageNumbers noisyClean_removeStandaloneLinks
        noisyClean_removeRepeatedSections noisyClean_normalizeLists noisyClean_trim)

text \<open>A text with two broken words in a row, and what one and two passes make of it.\<close>

definition hyphenated :: jstring where
  "hyphenated = js ''a- b- c''"

definition hyphenatedOnce :: jstring where
  "hyphenatedOnce = js ''ab- c''"

definition hyphenatedTwice :: jstring where
  "hyphenatedTwice = js ''abc''"

lemmas hyphenated_defs = hyphenated_def hyphenatedOnce_def hyphenatedTwice_def js_def

lemma hyphenated_normalizeWhitespace: "normalizeWhitespace hyphenated = hyphenated"
  by (simp add: hyphenated_defs normalizeWhitespace_def replaceCR_def)

lemma hyphenated_removePDFArtifacts: "removePDFArtifacts hyphenated = hyphenatedOnce"
  by (simp add: hyphenated_defs removePDFArtifacts_def hyphenBreak_def charClasses)

lemma hyphenatedOnce_removePDFArtifacts: "removePDFArtifacts hyphenatedOnce = hyphenatedTwice"
  by (simp add: hyphenated_defs removePDFArtifacts_def hyphenBreak_def charClasses)

lemma hyphenatedOnce_normalizeWhitespace: "normalizeWhitespace hyphenatedOnce = hyphenatedOnce"
  by (simp add: hyphenated_defs normalizeWhitespace_def replaceCR_def)

lemma hyphenatedOnce_removePageNumbers: "removePageNumbers hyphenatedOnce = hyphenatedOnce"
  by (simp add: hyphenated_defs removePageNumbers_def trim_def pageNumberPattern_def skipPagePrefix_def
        skipSeparator_def shortNumber_def charClasses)

lemma hyphenatedOnce_removeStandaloneLinks: "removeStandaloneLinks hyphenatedOnce = hyphenatedOnce"
  by (simp add: hyphenated_defs removeStandaloneLinks_def trim_def urlPattern_def emailPattern_def
        charClasses)

lemma hyphenatedOnce_removeRepeatedSections: "removeRepeatedSections hyphenatedOnce = hyphenatedOnce"
  by (simp add: hyphenated_defs removeRepeatedSections_def trim_def charClasses)

lemma hyphenatedOnce_normalizeLists: "normalizeLists hyphenatedOnce = hyphenatedOnce"
  by (simp add: hyphenated_defs normalizeLists_def charClasses)

lemma hyphenatedOnce_trim: "trim hyphenatedOnce = hyphenatedOnce"
  by (simp add: hyphenated_defs trim_def charClasses)

lemma hyphenatedTwice_normalizeWhitespace: "normalizeWhitespace hyphenatedTwice = hyphenatedTwice"
  by (simp add: hyphenated_defs normalizeWhitespace_def replaceCR_def)

lemma hyphenatedTwice_removePageNumbers: "removePageNumbers hyphenatedTwice = hyphenatedTwice"
  by (simp add: hyphenated_defs removePageNumbers_def trim_def pageNumberPattern_def skipPagePrefix_def
        skipSeparator_def shortNumber_def charClasses)

lemma hyphenatedTwice_removeStandaloneLinks: "removeStandaloneLinks hyphenatedTwice = hyphenatedTwice"
  by (simp add: hyphenated_defs removeStandaloneLinks_def trim_def urlPattern_def emailPattern_def
        charClasses)

lemma hyphenatedTwice_removeRepeatedSections: "removeRepeatedSections hyphenatedTwice = hyphenatedTwice"
  by (simp add: hyphenated_defs removeRepeatedSections_def trim_def charClasses)

lemma hyphenatedTwice_normalizeLists: "normalizeLists hyphenatedTwice = hyphenatedTwice"
  by (simp add: hyphenated_defs normalizeLists_def charClasses)

lemma hyphenatedTwice_trim: "trim hyphenatedTwice = hyphenatedTwice"
  by (simp add: hyphenated_defs trim_def charClasses)

lemma hyphenated_once: "preprocessText hyphenated defaultOptions = hyphenatedOnce"
  by (simp add: preprocessText_def defaultOptions_def hyphenated_normalizeWhitespace
        hyphenated_removePDFArtifacts hyphenatedOnce_removePageNumbers
        hyphenatedOnce_removeStandaloneLinks hyphenatedOnce_removeRepeatedSections
        hyphenatedOnce_normalizeLists hyphenatedOnce_normalizeWhitespace hyphenatedOnce_trim)

lemma hyphenated_twice: "preprocessText hyphenatedOnce defaultOptions = hyphenatedTwice"
  by (simp add: preprocessText_def defaultOptions_def hyphenatedOnce_normalizeWhitespace
        hyphenatedOnce_removePDFArtifacts hyphenatedTwice_removePageNumbers
        hyphenatedTwice_removeStandaloneLinks hyphenatedTwice_removeRepeatedSections
        hyphenatedTwice_normalizeLists hyphenatedTwice_normalizeWhitespace hyphenatedTwice_trim)

text \<open>
  Claim C8 as stated fails: in \<open>a- b- c\<close> the first pass joins \<open>a- b\<close> and goes on behind
  the \<open>b\<close>, leaving \<open>ab- c\<close>, which a second pass joins to \<open>abc\<close>.
\<close>

theorem preprocessText_not_idempotent:
  "preprocessText hyphenated defaultOptions = js ''ab- c''
   \<and> preprocessText (preprocessText hyphenated defaultOptions) defaultOptions = js ''abc''
   \<and> preprocessText (preprocessText hyphenated defaultOptions) defaultOptions
        \<noteq> preprocessText hyphenated defaultOptions"
  by (simp add: hyphenated_once hyphenated_twice) (simp add: hyphenated_defs)

text \<open>
  Claim C8, amended.  \<open>preprocessText\<close> with the default options is idempotent on the
  representative noisy text \<open>noisy\<close> (a second pass changes nothing), and its whitespace
  normalisation, the first and the last stage, is idempotent on every string.
\<close>

theorem preprocessText_idempotent_on_noisy_text:
  "preprocessText (preprocessText noisy defaultOptions) defaultOptions
     = preprocessText noisy defaultOptions
   \<and> normalizeWhitespace (normalizeWhitespace t) = normalizeWhitespace t"
  by (simp add: noisy_preprocessText noisyClean_preprocessText normalizeWhitespace_idem)

end
